theory Spec2Isabelle
  imports Main "HOL-Library.Word"
begin

section \<open>Constants of the headers the program includes\<close>

text \<open>
  The headers are not part of the repository. The values are those of \<^verbatim>\<open>wiringPi.h\<close>
  (\<^verbatim>\<open>LOW 0\<close>, \<^verbatim>\<open>HIGH 1\<close>, \<^verbatim>\<open>INPUT 0\<close>, \<^verbatim>\<open>OUTPUT 1\<close>, \<^verbatim>\<open>PUD_UP 2\<close>), of
  \<^verbatim>\<open>linux/input-event-codes.h\<close> (\<^verbatim>\<open>EV_KEY 0x01\<close>) and of \<^verbatim>\<open>fcntl.h\<close> on Linux
  (\<^verbatim>\<open>O_RDONLY 0\<close>, \<^verbatim>\<open>O_NONBLOCK 04000\<close>). The program's own two constants are the pin
  numbers.
\<close>

definition LOW :: int where "LOW = 0"
definition HIGH :: int where "HIGH = 1"
definition INPUT :: int where "INPUT = 0"
definition OUTPUT :: int where "OUTPUT = 1"
definition PUD_UP :: int where "PUD_UP = 2"
definition EV_KEY :: "16 word" where "EV_KEY = 1"
definition O_RDONLY :: int where "O_RDONLY = 0"
definition O_NONBLOCK :: int where "O_NONBLOCK = 2048"

definition g_pin_input :: int where "g_pin_input = 0"
definition g_pin_output :: int where "g_pin_output = 2"

section \<open>The configuration\<close>

text \<open>
  \<^verbatim>\<open>struct program_config\<close>, with its default member initialisers. The two
  \<^verbatim>\<open>std::optional<unsigned int>\<close> fields hold 32-bit words.
\<close>

record program_config =
  iterations :: int
  delay_min :: int
  delay_max :: int
  pin :: bool
  usb :: "32 word option"
  key :: "32 word option"
  events :: bool
  summary :: bool

definition defaults :: program_config where
  "defaults = \<lparr>iterations = 1000, delay_min = 10000, delay_max = 20000, pin = False,
     usb = None, key = None, events = False, summary = False\<rparr>"

section \<open>The world the program acts on\<close>

text \<open>
  The fields of \<^verbatim>\<open>struct input_event\<close> the program inspects (the time stamp is never read).
\<close>

record input_event =
  type :: "16 word"
  code :: "16 word"
  value' :: "32 word"

text \<open>
  Every call that leaves the program is recorded, with its arguments and with what it
  returned: the wiringPi calls, the sleep (microseconds), the clock (the reading in
  nanoseconds), the system calls on the event device and the two output streams. What
  one statement writes to a stream is one record. Time points and durations are
  integers: the readings of a clock lie far inside the range of its 64-bit
  representation, where the subtraction of two of them does not overflow.
\<close>

datatype action =
    WiringPiSetup
  | PinMode int int
  | PullUpDnControl int int
  | DigitalWrite int int
  | DigitalRead int int
  | SleepFor int
  | ClockNow int
  | SysOpen string int int
  | SysClose int
  | SysRead int int input_event
  | IoctlName int string
  | Cout string
  | Cerr string

datatype stoi_result = Parsed int | InvalidArgument | OutOfRange

text \<open>
  What the surroundings answer. The k-th call of a kind gets the k-th answer of that
  kind: the level \<^verbatim>\<open>digitalRead\<close> returns, the reading of the clock in nanoseconds, the
  return value of \<^verbatim>\<open>read\<close> together with what the event buffer holds afterwards, the
  return value of \<^verbatim>\<open>open\<close> on a path, the name \<^verbatim>\<open>EVIOCGNAME\<close> leaves in the buffer.
  \<^verbatim>\<open>std::stoi\<close> is a function of its argument.
\<close>

record env =
  pin_level :: "nat \<Rightarrow> int"
  clock_ns :: "nat \<Rightarrow> int"
  ev_read :: "nat \<Rightarrow> int \<times> input_event"
  sys_open :: "nat \<Rightarrow> string \<Rightarrow> int"
  ev_name :: "nat \<Rightarrow> string"
  stoi :: "string \<Rightarrow> stoi_result"

text \<open>The state: the calls made so far, and how many answers of each kind are used up.\<close>

record world =
  trace :: "action list"
  n_pin :: nat
  n_clock :: nat
  n_read :: nat
  n_open :: nat
  n_ioctl :: nat

definition world0 :: world where
  "world0 = \<lparr>trace = [], n_pin = 0, n_clock = 0, n_read = 0, n_open = 0, n_ioctl = 0\<rparr>"

text \<open>How the process stops other than by returning: \<^verbatim>\<open>exit(n)\<close>, or an exception
  nobody catches (\<^verbatim>\<open>std::terminate\<close>).\<close>

datatype stop = Exit int | Terminate

datatype exn = OpenException

definition emit :: "action \<Rightarrow> world \<Rightarrow> world" where
  "emit a w = w\<lparr>trace := trace w @ [a]\<rparr>"

definition digitalRead :: "env \<Rightarrow> int \<Rightarrow> world \<Rightarrow> int \<times> world" where
  "digitalRead e p w =
     (let v = pin_level e (n_pin w)
      in (v, emit (DigitalRead p v) (w\<lparr>n_pin := Suc (n_pin w)\<rparr>)))"

definition digitalWrite :: "int \<Rightarrow> int \<Rightarrow> world \<Rightarrow> world" where
  "digitalWrite p v w = emit (DigitalWrite p v) w"

definition sleep_for :: "int \<Rightarrow> world \<Rightarrow> world" where
  "sleep_for d w = emit (SleepFor d) w"

definition now :: "env \<Rightarrow> world \<Rightarrow> int \<times> world" where
  "now e w =
     (let t = clock_ns e (n_clock w)
      in (t, emit (ClockNow t) (w\<lparr>n_clock := Suc (n_clock w)\<rparr>)))"

definition sys_read :: "env \<Rightarrow> int \<Rightarrow> world \<Rightarrow> (int \<times> input_event) \<times> world" where
  "sys_read e fd w =
     (let r = ev_read e (n_read w)
      in (r, emit (SysRead fd (fst r) (snd r)) (w\<lparr>n_read := Suc (n_read w)\<rparr>)))"

section \<open>Printing numbers\<close>

definition endl :: string where "endl = [CHR 0x0A]"
definition dquote :: string where "dquote = [CHR 0x22]"
definition squote :: string where "squote = [CHR 0x27]"

fun show_nat :: "nat \<Rightarrow> string" where
  "show_nat n =
     (if n < 10 then [char_of (48 + n)]
      else show_nat (n div 10) @ [char_of (48 + n mod 10)])"

declare show_nat.simps [simp del]

definition show_int :: "int \<Rightarrow> string" where
  "show_int i = (if i < 0 then CHR ''-'' # show_nat (nat (- i)) else show_nat (nat i))"

section \<open>print\_config\<close>

definition tf :: "bool \<Rightarrow> string" where
  "tf a = (if a then ''true'' else ''false'')"

text \<open>The lambda \<^verbatim>\<open>opt\<close> takes a \<^verbatim>\<open>std::optional<int>\<close>: the unsigned value is converted
  to \<^verbatim>\<open>int\<close> on the way in.\<close>

definition opt :: "32 word option \<Rightarrow> string" where
  "opt a = (case a of Some v \<Rightarrow> show_int (sint v) | None \<Rightarrow> ''null'')"

definition print_config :: "program_config \<Rightarrow> world \<Rightarrow> world" where
  "print_config c w =
     emit (Cout (''{'' @ dquote @ ''iterations'' @ dquote @ '':'' @ show_int (iterations c) @ '',''
        @ dquote @ ''delay_min'' @ dquote @ '':'' @ show_int (delay_min c) @ '',''
        @ dquote @ ''delay_max'' @ dquote @ '':'' @ show_int (delay_max c) @ '',''
        @ dquote @ ''pin'' @ dquote @ '':'' @ tf (pin c) @ '',''
        @ dquote @ ''usb'' @ dquote @ '':'' @ opt (usb c) @ '',''
        @ dquote @ ''key'' @ dquote @ '':'' @ opt (key c) @ ''}'' @ endl)) w"

section \<open>class Event\<close>

record Event =
  Event_fd :: int
  Event_id :: int

text \<open>The constructor: \<open>Inl OpenException\<close> when \<^verbatim>\<open>open\<close> returns a negative
  descriptor; no object exists then, and no destructor runs.\<close>

definition Event_ctor :: "env \<Rightarrow> int \<Rightarrow> world \<Rightarrow> (exn + Event) \<times> world" where
  "Event_ctor e event_id w =
     (let path = ''/dev/input/event'' @ show_int event_id;
          fd = sys_open e (n_open w) path;
          w' = emit (SysOpen path (or O_RDONLY O_NONBLOCK) fd) (w\<lparr>n_open := Suc (n_open w)\<rparr>)
      in if fd < 0 then (Inl OpenException, w')
         else (Inr \<lparr>Event_fd = fd, Event_id = event_id\<rparr>, w'))"

definition Event_dtor :: "Event \<Rightarrow> world \<Rightarrow> world" where
  "Event_dtor ev w = (if Event_fd ev \<ge> 0 then emit (SysClose (Event_fd ev)) w else w)"

text \<open>\<^verbatim>\<open>name()\<close>: the string the buffer holds after the \<^verbatim>\<open>EVIOCGNAME\<close> call.\<close>

definition Event_name :: "env \<Rightarrow> Event \<Rightarrow> world \<Rightarrow> string \<times> world" where
  "Event_name e ev w =
     (let event_name = ev_name e (n_ioctl w)
      in (event_name, emit (IoctlName (Event_fd ev) event_name) (w\<lparr>n_ioctl := Suc (n_ioctl w)\<rparr>)))"

section \<open>init\_pins\<close>

definition init_pins :: "world \<Rightarrow> world" where
  "init_pins w =
     (let w1 = emit WiringPiSetup w;
          w2 = emit (PinMode g_pin_input INPUT) w1;
          w3 = emit (PullUpDnControl g_pin_input PUD_UP) w2;
          w4 = emit (PinMode g_pin_output OUTPUT) w3
      in digitalWrite g_pin_output LOW w4)"

section \<open>get\_delays\<close>

text \<open>
  The engine and the distribution are the standard library's: \<open>mt19937 r s\<close> is the
  state of a \<^verbatim>\<open>std::mt19937\<close> constructed from the seed \<open>s\<close>, and
  \<open>uniform_int_distribution r a b g\<close> is one draw of a
  \<^verbatim>\<open>std::uniform_int_distribution<int>{a, b}\<close> from the engine in state \<open>g\<close>: the value and
  the engine's next state.
\<close>

record 'g rng =
  mt19937 :: "nat \<Rightarrow> 'g"
  uniform_int_distribution :: "int \<Rightarrow> int \<Rightarrow> 'g \<Rightarrow> int \<times> 'g"

text \<open>\<^verbatim>\<open>std::generate\<close> over a vector of \<open>n\<close> slots: one call of the generator per slot, in
  order.\<close>

fun generate :: "('g \<Rightarrow> int \<times> 'g) \<Rightarrow> nat \<Rightarrow> 'g \<Rightarrow> int list" where
  "generate f 0 g = []"
| "generate f (Suc n) g = (case f g of (v, g') \<Rightarrow> v # generate f n g')"

text \<open>A vector of a negative \<^verbatim>\<open>int\<close> size is a vector of more than \<^verbatim>\<open>max_size()\<close> elements:
  the constructor throws, and nobody catches (\<open>None\<close>).\<close>

definition get_delays :: "'g rng \<Rightarrow> program_config \<Rightarrow> int list option" where
  "get_delays r c =
     (let rand_gen = mt19937 r 30378;
          int_dist = uniform_int_distribution r (delay_min c) (delay_max c)
      in if iterations c < 0 then None
         else Some (generate int_dist (nat (iterations c)) rand_gen))"

section \<open>measure\_loop\<close>

function measure_loop_for ::
  "(bool \<Rightarrow> world \<Rightarrow> world option) \<Rightarrow> env \<Rightarrow> int list \<Rightarrow> nat \<Rightarrow> nat \<Rightarrow> int list \<Rightarrow> world
     \<Rightarrow> (int list \<times> world) option" where
  "measure_loop_for detect e delays n i tms w =
     (if i < n then
        (let w1 = sleep_for (delays ! i) w;
             (start, w2) = now e w1;
             w3 = digitalWrite g_pin_output HIGH w2
         in case detect True w3 of
              None \<Rightarrow> None
            | Some w4 \<Rightarrow>
                (let (t, w5) = now e w4;
                     tms' = tms[i := t - start];
                     w6 = digitalWrite g_pin_output LOW w5
                 in case detect False w6 of
                      None \<Rightarrow> None
                    | Some w7 \<Rightarrow> measure_loop_for detect e delays n (Suc i) tms' w7))
      else Some (tms, w))"
  by pat_completeness auto
termination
  by (relation "measure (\<lambda>(detect, e, delays, n, i, tms, w). n - i)") auto

declare measure_loop_for.simps [simp del]

definition measure_loop ::
  "'g rng \<Rightarrow> env \<Rightarrow> program_config \<Rightarrow> (bool \<Rightarrow> world \<Rightarrow> world option) \<Rightarrow> world
     \<Rightarrow> ((stop + int list) \<times> world) option" where
  "measure_loop r e c detect w =
     (let w1 = (if summary c then print_config c w else w);
          w2 = init_pins w1
      in case get_delays r c of
           None \<Rightarrow> Some (Inl Terminate, w2)
         | Some delays \<Rightarrow>
             (case measure_loop_for detect e delays (nat (iterations c)) 0
                     (replicate (nat (iterations c)) 0) w2 of
                None \<Rightarrow> None
              | Some (tms, w3) \<Rightarrow> Some (Inr tms, w3)))"

section \<open>The two detection loops\<close>

partial_function (option) measure_usb_detect ::
  "env \<Rightarrow> program_config \<Rightarrow> int \<Rightarrow> bool \<Rightarrow> world \<Rightarrow> world option" where
  "measure_usb_detect e c fd pressed w =
     (case sys_read e fd w of
        ((ret, keyboard_event), w') \<Rightarrow>
          if ret = - 1 then measure_usb_detect e c fd pressed w'
          else if (if type keyboard_event = EV_KEY
                      \<and> Some (ucast (code keyboard_event)) = key c
                      \<and> sint (value' keyboard_event) = of_bool pressed
                   then 1 else 0) \<noteq> (0 :: int)
               then Some w'
          else measure_usb_detect e c fd pressed w')"

partial_function (option) measure_pin_detect :: "env \<Rightarrow> bool \<Rightarrow> world \<Rightarrow> world option" where
  "measure_pin_detect e pressed w =
     (case digitalRead e g_pin_input w of
        (v, w') \<Rightarrow>
          if (if v = of_bool pressed then LOW else HIGH) \<noteq> 0 then Some w'
          else measure_pin_detect e pressed w')"

declare measure_usb_detect.simps [code]
declare measure_pin_detect.simps [code]

text \<open>
  \<^verbatim>\<open>measure_usb\<close>: the handle lives for the \<^verbatim>\<open>try\<close> block. When the constructor throws,
  no handle exists and the handler exits with status 1. When the loop returns, the
  destructor runs on the way out. An exception of another kind is caught nowhere: the
  process ends in \<^verbatim>\<open>std::terminate\<close>, and the model runs no destructor then (whether the
  stack is unwound before is left to the implementation).
\<close>

definition measure_usb ::
  "'g rng \<Rightarrow> env \<Rightarrow> program_config \<Rightarrow> int \<Rightarrow> world \<Rightarrow> ((stop + int list) \<times> world) option" where
  "measure_usb r e c event_id w =
     (case Event_ctor e event_id w of
        (Inl OpenException, w1) \<Rightarrow>
          Some (Inl (Exit 1),
                emit (Cerr (''Could not open fd for '' @ show_int event_id @ endl)) w1)
      | (Inr event, w1) \<Rightarrow>
          (let fd = Event_fd event
           in case measure_loop r e c (measure_usb_detect e c fd) w1 of
                None \<Rightarrow> None
              | Some (Inl s, w2) \<Rightarrow> Some (Inl s, w2)
              | Some (Inr tms, w2) \<Rightarrow> Some (Inr tms, Event_dtor event w2)))"

definition measure_pin ::
  "'g rng \<Rightarrow> env \<Rightarrow> program_config \<Rightarrow> world \<Rightarrow> ((stop + int list) \<times> world) option" where
  "measure_pin r e c w = measure_loop r e c (measure_pin_detect e) w"

section \<open>print\_event\_paths\<close>

text \<open>One round of the loop: the handle lives for the body of the \<^verbatim>\<open>try\<close> block, and its
  destructor runs when the block is left. A constructor that throws leaves no handle.\<close>

definition print_event_paths_body :: "env \<Rightarrow> int \<Rightarrow> world \<Rightarrow> world" where
  "print_event_paths_body e event_id w =
     (case Event_ctor e event_id w of
        (Inl OpenException, w1) \<Rightarrow> w1
      | (Inr event, w1) \<Rightarrow>
          (let (nm, w2) = Event_name e event w1;
               w3 = emit (Cout (''['' @ show_int (Event_id event) @ ''] '' @ nm @ endl)) w2
           in Event_dtor event w3))"

function print_event_paths_for :: "env \<Rightarrow> int \<Rightarrow> world \<Rightarrow> world" where
  "print_event_paths_for e event_id w =
     (if event_id < 256
      then print_event_paths_for e (event_id + 1) (print_event_paths_body e event_id w)
      else w)"
  by pat_completeness auto
termination
  by (relation "measure (\<lambda>(e, event_id, w). nat (256 - event_id))") auto

declare print_event_paths_for.simps [simp del]

definition print_event_paths :: "env \<Rightarrow> world \<Rightarrow> world" where
  "print_event_paths e w = print_event_paths_for e 0 w"

section \<open>measure\<close>

definition measure' ::
  "(world \<Rightarrow> ((stop + int list) \<times> world) option) \<Rightarrow> world \<Rightarrow> ((stop + unit) \<times> world) option" where
  "measure' measure_fn w =
     (case measure_fn w of
        None \<Rightarrow> None
      | Some (Inl s, w1) \<Rightarrow> Some (Inl s, w1)
      | Some (Inr tms, w1) \<Rightarrow>
          Some (Inr (), emit (Cout (concat (map (\<lambda>t. show_int t @ endl) tms))) w1))"

section \<open>help and parse\_args\<close>

definition help_msg :: string where
  "help_msg =
     ''-i, --iterations <n>   Number of iterations to perform (default: ''
       @ show_int (iterations defaults) @ '').'' @ endl
     @ ''-d, --delaymin <n>     Minimum delay between measurements (default: ''
       @ show_int (delay_min defaults) @ '').'' @ endl
     @ ''-D, --delaymax <n>     Maximum delay between measurements (default: ''
       @ show_int (delay_max defaults) @ '').'' @ endl
     @ ''-p, --pin              Run pin-based measurement.'' @ endl
     @ ''-u, --usb <event_id>   Run usb-based measurement. Pass an evdev event id.'' @ endl
     @ ''-k, --key <event_code> Event code of the key used for measurement.'' @ endl
     @ ''                       See kernel '' @ squote @ ''input-event-codes.h'' @ squote @ ''.'' @ endl
     @ ''-e, --events           List names of evdev events.'' @ endl
     @ ''-s, --summary          Print summary of measurements.'' @ endl
     @ ''-h, --help             Show help.'' @ endl"

text \<open>\<^verbatim>\<open>help\<close> never returns: it ends in \<^verbatim>\<open>exit(1)\<close> or \<^verbatim>\<open>exit(0)\<close>.\<close>

definition help' :: "bool \<Rightarrow> world \<Rightarrow> stop \<times> world" where
  "help' err w =
     (if err then (Exit 1, emit (Cerr help_msg) w)
      else (Exit 0, emit (Cout help_msg) w))"

text \<open>The lambdas of \<^verbatim>\<open>parse_args\<close>. \<^verbatim>\<open>std::stoi\<close> throws \<^verbatim>\<open>std::invalid_argument\<close>, which
  \<^verbatim>\<open>get_num\<close> catches, or \<^verbatim>\<open>std::out_of_range\<close>, which nobody catches.\<close>

definition get_num :: "env \<Rightarrow> string \<Rightarrow> string \<Rightarrow> world \<Rightarrow> (stop + int) \<times> world" where
  "get_num e name optarg w =
     (case stoi e optarg of
        Parsed val \<Rightarrow> (Inr val, w)
      | InvalidArgument \<Rightarrow>
          (case help' True (emit (Cerr (name @ '' must be a number.'' @ endl)) w) of
             (s, w1) \<Rightarrow> (Inl s, w1))
      | OutOfRange \<Rightarrow> (Inl Terminate, w))"

definition get_positive ::
  "env \<Rightarrow> string \<Rightarrow> string \<Rightarrow> bool \<Rightarrow> world \<Rightarrow> (stop + int) \<times> world" where
  "get_positive e name optarg allow_zero w =
     (case get_num e name optarg w of
        (Inl s, w1) \<Rightarrow> (Inl s, w1)
      | (Inr val, w1) \<Rightarrow>
          if val < 0 \<or> (\<not> allow_zero \<and> 0 = val)
          then (case help' True (emit (Cerr (name @ '' must be greater than zero.'' @ endl)) w1) of
                  (s, w2) \<Rightarrow> (Inl s, w2))
          else (Inr val, w1))"

text \<open>
  The \<^verbatim>\<open>while (true)\<close> loop over \<^verbatim>\<open>getopt_long\<close>. The list holds what \<^verbatim>\<open>getopt_long\<close>
  returns call after call before it returns -1: the option character (\<^verbatim>\<open>'?'\<close> for an
  option it does not know) and \<^verbatim>\<open>optarg\<close>.
\<close>

fun parse_args_loop ::
  "env \<Rightarrow> (char \<times> string) list \<Rightarrow> program_config \<Rightarrow> world \<Rightarrow> (stop + program_config) \<times> world" where
  "parse_args_loop e [] c w = (Inr c, w)"
| "parse_args_loop e ((oc, optarg) # rest) c w =
     (if oc = CHR ''i'' then
        (case get_positive e ''iterations'' optarg False w of
           (Inl s, w1) \<Rightarrow> (Inl s, w1)
         | (Inr v, w1) \<Rightarrow> parse_args_loop e rest (c\<lparr>iterations := v\<rparr>) w1)
      else if oc = CHR ''d'' then
        (case get_positive e ''delaymin'' optarg True w of
           (Inl s, w1) \<Rightarrow> (Inl s, w1)
         | (Inr v, w1) \<Rightarrow> parse_args_loop e rest (c\<lparr>delay_min := v\<rparr>) w1)
      else if oc = CHR ''D'' then
        (case get_positive e ''delaymax'' optarg True w of
           (Inl s, w1) \<Rightarrow> (Inl s, w1)
         | (Inr v, w1) \<Rightarrow> parse_args_loop e rest (c\<lparr>delay_max := v\<rparr>) w1)
      else if oc = CHR ''p'' then parse_args_loop e rest (c\<lparr>pin := True\<rparr>) w
      else if oc = CHR ''u'' then
        (case get_num e ''usb'' optarg w of
           (Inl s, w1) \<Rightarrow> (Inl s, w1)
         | (Inr v, w1) \<Rightarrow> parse_args_loop e rest (c\<lparr>usb := Some (word_of_int v)\<rparr>) w1)
      else if oc = CHR ''k'' then
        (case get_num e ''key'' optarg w of
           (Inl s, w1) \<Rightarrow> (Inl s, w1)
         | (Inr v, w1) \<Rightarrow> parse_args_loop e rest (c\<lparr>key := Some (word_of_int v)\<rparr>) w1)
      else if oc = CHR ''e'' then parse_args_loop e rest (c\<lparr>events := True\<rparr>) w
      else if oc = CHR ''s'' then parse_args_loop e rest (c\<lparr>summary := True\<rparr>) w
      else if oc = CHR ''h'' then (case help' False w of (s, w1) \<Rightarrow> (Inl s, w1))
      else (case help' True w of (s, w1) \<Rightarrow> (Inl s, w1)))"

definition parse_args ::
  "env \<Rightarrow> (char \<times> string) list \<Rightarrow> program_config \<Rightarrow> world \<Rightarrow> (stop + program_config) \<times> world" where
  "parse_args e args c0 w =
     (case parse_args_loop e args c0 w of
        (Inl s, w1) \<Rightarrow> (Inl s, w1)
      | (Inr config, w1) \<Rightarrow>
          if delay_max config < delay_min config then
            (case help' True (emit (Cerr (''delaymin must be smaller or equal to delaymin'' @ endl)) w1) of
               (s, w2) \<Rightarrow> (Inl s, w2))
          else
            (let num_cmds = (0 :: nat);
                 num_cmds = (if pin config then num_cmds + 1 else num_cmds);
                 num_cmds = (if usb config \<noteq> None then num_cmds + 1 else num_cmds);
                 num_cmds = (if events config then num_cmds + 1 else num_cmds)
             in if num_cmds = 0 then
                  (case help' True (emit (Cerr (''Must pass one of: pin, usb, events'' @ endl)) w1) of
                     (s, w2) \<Rightarrow> (Inl s, w2))
                else if num_cmds > 1 then
                  (case help' True (emit (Cerr
                      (''Passed conflicting mutually exclusive commands: pin, usb, events'' @ endl)) w1) of
                     (s, w2) \<Rightarrow> (Inl s, w2))
                else if usb config \<noteq> None \<and> key config = None then
                  (case help' True (emit (Cerr (''Must pass --key when using usb measurement'' @ endl)) w1) of
                     (s, w2) \<Rightarrow> (Inl s, w2))
                else (Inr config, w1)))"

section \<open>main\<close>

text \<open>The process starts from the default configuration and an empty history; returning
  0 from \<^verbatim>\<open>main\<close> is \<open>Exit 0\<close>. \<open>None\<close>: a detection loop polls for ever.\<close>

definition main :: "'g rng \<Rightarrow> env \<Rightarrow> (char \<times> string) list \<Rightarrow> (stop \<times> world) option" where
  "main r e args =
     (case parse_args e args defaults world0 of
        (Inl s, w) \<Rightarrow> Some (s, w)
      | (Inr config, w) \<Rightarrow>
          if events config then Some (Exit 0, print_event_paths e w)
          else if pin config then
            (case measure' (measure_pin r e config) w of
               None \<Rightarrow> None
             | Some (Inl s, w1) \<Rightarrow> Some (s, w1)
             | Some (Inr u, w1) \<Rightarrow> Some (Exit 0, w1))
          else (case usb config of
                  Some event_id \<Rightarrow>
                    (case measure' (measure_usb r e config (sint event_id)) w of
                       None \<Rightarrow> None
                     | Some (Inl s, w1) \<Rightarrow> Some (s, w1)
                     | Some (Inr u, w1) \<Rightarrow> Some (Exit 0, w1))
                | None \<Rightarrow> Some (Exit 0, w)))"

section \<open>Notions the statements use\<close>

text \<open>The world after one \<^verbatim>\<open>digitalRead\<close> of the input pin, and the reads number \<open>k\<close> up to
  (not including) number \<open>n\<close> as they stand in the history.\<close>

definition after_pin_read :: "env \<Rightarrow> world \<Rightarrow> world" where
  "after_pin_read e w =
     w\<lparr>n_pin := Suc (n_pin w), trace := trace w @ [DigitalRead g_pin_input (pin_level e (n_pin w))]\<rparr>"

definition pin_polls :: "env \<Rightarrow> nat \<Rightarrow> nat \<Rightarrow> action list" where
  "pin_polls e k n = map (\<lambda>j. DigitalRead g_pin_input (pin_level e j)) [k..<n]"

text \<open>The same for \<^verbatim>\<open>read\<close> on the event device.\<close>

definition after_usb_read :: "env \<Rightarrow> int \<Rightarrow> world \<Rightarrow> world" where
  "after_usb_read e fd w =
     w\<lparr>n_read := Suc (n_read w),
       trace := trace w @ [SysRead fd (fst (ev_read e (n_read w))) (snd (ev_read e (n_read w)))]\<rparr>"

definition usb_polls :: "env \<Rightarrow> int \<Rightarrow> nat \<Rightarrow> nat \<Rightarrow> action list" where
  "usb_polls e fd k n = map (\<lambda>j. SysRead fd (fst (ev_read e j)) (snd (ev_read e j))) [k..<n]"

text \<open>The event the detection waits for, in the words of the specification: a key event,
  of the configured key, whose value is 1 (pressed) when \<open>asserted\<close> and 0 (released)
  when not.\<close>

definition is_expected_key_event :: "program_config \<Rightarrow> bool \<Rightarrow> input_event \<Rightarrow> bool" where
  "is_expected_key_event c asserted ev \<longleftrightarrow>
     type ev = EV_KEY \<and> key c = Some (ucast (code ev)) \<and> value' ev = (if asserted then 1 else 0)"

text \<open>The k-th read yields a record that ends the wait: \<^verbatim>\<open>read\<close> did not return -1, and
  the buffer holds the expected event.\<close>

definition usb_hit :: "env \<Rightarrow> program_config \<Rightarrow> bool \<Rightarrow> nat \<Rightarrow> bool" where
  "usb_hit e c asserted k \<longleftrightarrow>
     fst (ev_read e k) \<noteq> - 1 \<and> is_expected_key_event c asserted (snd (ev_read e k))"

text \<open>What the standard promises of \<^verbatim>\<open>std::uniform_int_distribution<int>{a, b}\<close> with
  \<open>a \<le> b\<close>: every draw lies in the closed range.\<close>

definition uniform_int_contract :: "'g rng \<Rightarrow> bool" where
  "uniform_int_contract r \<longleftrightarrow>
     (\<forall>a b g. a \<le> b \<longrightarrow>
        a \<le> fst (uniform_int_distribution r a b g) \<and> fst (uniform_int_distribution r a b g) \<le> b)"

text \<open>
  The calls a detection loop makes are reads of the pin or of the event device. A
  detection function that only polls adds nothing but such reads to the history and does
  not read the clock; both loops of the program are of this kind.
\<close>

definition is_poll :: "action \<Rightarrow> bool" where
  "is_poll a = (case a of DigitalRead p v \<Rightarrow> True | SysRead fd ret ev \<Rightarrow> True | _ \<Rightarrow> False)"

definition polls_only :: "(bool \<Rightarrow> world \<Rightarrow> world option) \<Rightarrow> bool" where
  "polls_only detect \<longleftrightarrow>
     (\<forall>b w w'. detect b w = Some w' \<longrightarrow>
        n_clock w' = n_clock w \<and> n_open w' = n_open w \<and> n_ioctl w' = n_ioctl w
        \<and> (\<exists>acts. trace w' = trace w @ acts \<and> list_all is_poll acts))"

text \<open>The world just before the wait for the asserted state of a trial that sleeps \<open>d\<close>,
  and the world just before the wait for the deasserted state.\<close>

definition trial_begin :: "env \<Rightarrow> int \<Rightarrow> world \<Rightarrow> world" where
  "trial_begin e d w =
     w\<lparr>n_clock := Suc (n_clock w),
       trace := trace w @ [SleepFor d, ClockNow (clock_ns e (n_clock w)), DigitalWrite g_pin_output HIGH]\<rparr>"

definition trial_mid :: "env \<Rightarrow> world \<Rightarrow> world" where
  "trial_mid e w =
     w\<lparr>n_clock := Suc (n_clock w),
       trace := trace w @ [ClockNow (clock_ns e (n_clock w)), DigitalWrite g_pin_output LOW]\<rparr>"

text \<open>
  The history of the trials as the specification orders it. For each delay in turn: the
  sleep, the start time stamp, the output driven HIGH, the polls \<open>a\<close> of the wait for the
  asserted state, the second time stamp, the output driven LOW, the polls \<open>b\<close> of the wait
  for the deasserted state. \<open>k\<close> counts the clock readings taken before.
\<close>

fun trial_trace :: "env \<Rightarrow> nat \<Rightarrow> int list \<Rightarrow> (action list \<times> action list) list \<Rightarrow> action list" where
  "trial_trace e k (d # ds) ((a, b) # segs) =
     [SleepFor d, ClockNow (clock_ns e k), DigitalWrite g_pin_output HIGH] @ a
     @ [ClockNow (clock_ns e (Suc k)), DigitalWrite g_pin_output LOW] @ b
     @ trial_trace e (Suc (Suc k)) ds segs"
| "trial_trace e k ds segs = []"

text \<open>
  The trials as the specification's state machine runs them, one delay after the other:
  sleep for the delay, record the start time stamp and drive the output to the asserted
  level (\<open>trial_begin\<close>); call the detection with \<open>True\<close>; read the clock again, the
  elapsed time being this reading minus the start, and drive the output back to the
  deasserted level (\<open>trial_mid\<close>); call the detection with \<open>False\<close>, whose wait no clock
  reading follows. The samples are returned in trial order. \<open>None\<close>: a detection call
  does not return.
\<close>

fun spec_trials ::
  "(bool \<Rightarrow> world \<Rightarrow> world option) \<Rightarrow> env \<Rightarrow> int list \<Rightarrow> world \<Rightarrow> (int list \<times> world) option" where
  "spec_trials detect e [] w = Some ([], w)"
| "spec_trials detect e (d # ds) w =
     (case detect True (trial_begin e d w) of
        None \<Rightarrow> None
      | Some w_asserted \<Rightarrow>
          (case detect False (trial_mid e w_asserted) of
             None \<Rightarrow> None
           | Some w_deasserted \<Rightarrow>
               (case spec_trials detect e ds w_deasserted of
                  None \<Rightarrow> None
                | Some (samples, w') \<Rightarrow>
                    Some ((clock_ns e (n_clock w_asserted) - clock_ns e (n_clock w)) # samples, w'))))"

text \<open>The samples as the specification defines them: for trial \<open>i\<close> the second time stamp
  of the trial minus its first.\<close>

definition trial_times :: "env \<Rightarrow> nat \<Rightarrow> nat \<Rightarrow> int list" where
  "trial_times e k n = map (\<lambda>i. clock_ns e (k + 2 * i + 1) - clock_ns e (k + 2 * i)) [0..<n]"

definition clock_monotonic :: "env \<Rightarrow> bool" where
  "clock_monotonic e \<longleftrightarrow> (\<forall>i j. i \<le> j \<longrightarrow> clock_ns e i \<le> clock_ns e j)"

text \<open>What precedes the trials: the configuration line when asked for, and the pin set-up.\<close>

definition loop_start :: "program_config \<Rightarrow> world \<Rightarrow> world" where
  "loop_start c w = init_pins (if summary c then print_config c w else w)"

text \<open>A write to one of the two output streams: the only calls that touch neither the
  pins, nor the clock, nor a device.\<close>

definition is_output :: "action \<Rightarrow> bool" where
  "is_output a = (case a of Cout s \<Rightarrow> True | Cerr s \<Rightarrow> True | _ \<Rightarrow> False)"

text \<open>The second world is the first with writes to the output streams added, and nothing
  else.\<close>

definition only_output :: "world \<Rightarrow> world \<Rightarrow> bool" where
  "only_output w w' \<longleftrightarrow>
     (\<exists>tr. w' = w\<lparr>trace := trace w @ tr\<rparr> \<and> list_all is_output tr)"

text \<open>
  The descriptors held while a history is replayed: a successful \<^verbatim>\<open>open\<close> adds the
  descriptor it returned, a failed one adds nothing, \<^verbatim>\<open>close\<close> takes its descriptor away.
  The replay fails (\<open>None\<close>) at a \<^verbatim>\<open>close\<close> of a descriptor that is not held: one never
  opened, or one closed before. A history that replays from no descriptor to no
  descriptor has released each descriptor it acquired, once.
\<close>

fun fd_track :: "action list \<Rightarrow> int list \<Rightarrow> int list option" where
  "fd_track [] held = Some held"
| "fd_track (SysOpen path flags fd # tr) held = fd_track tr (if fd < 0 then held else fd # held)"
| "fd_track (SysClose fd # tr) held =
     (if fd \<in> set held then fd_track tr (remove1 fd held) else None)"
| "fd_track (a # tr) held = fd_track tr held"

definition is_fd_action :: "action \<Rightarrow> bool" where
  "is_fd_action a = (case a of SysOpen path flags fd \<Rightarrow> True | SysClose fd \<Rightarrow> True | _ \<Rightarrow> False)"

section \<open>A concrete environment\<close>

definition demo_event :: "16 word \<Rightarrow> 16 word \<Rightarrow> 32 word \<Rightarrow> input_event" where
  "demo_event t c v = \<lparr>type = t, code = c, value' = v\<rparr>"

definition demo_env :: env where
  "demo_env = \<lparr>
     pin_level = (\<lambda>k. if k mod 4 < 2 then 1 else 0),
     clock_ns = (\<lambda>k. 100 * int (k * k)),
     ev_read = (\<lambda>k. if k = 0 then (- 1, demo_event 1 30 1)
                     else if k = 1 then (24, demo_event 0 0 0)
                     else if k = 2 then (24, demo_event 1 31 1)
                     else if k = 3 then (24, demo_event 1 30 2)
                     else if k = 4 then (24, demo_event 1 30 1)
                     else (0, demo_event 1 30 0)),
     sys_open = (\<lambda>k path. if k = 3 then 5 else - 1),
     ev_name = (\<lambda>k. ''kbd''),
     stoi = (\<lambda>s. if s = ''50'' then Parsed 50 else if s = ''10'' then Parsed 10
                  else if s = ''4'' then Parsed 4 else InvalidArgument)\<rparr>"

definition demo_config :: program_config where
  "demo_config = defaults\<lparr>iterations := 2, delay_min := 100, delay_max := 200,
     usb := Some 3, key := Some 30\<rparr>"

text \<open>A small engine to run the delay generator on: a linear congruential step, and a
  draw that reduces the state into the range.\<close>

definition demo_rng :: "nat rng" where
  "demo_rng = \<lparr>mt19937 = (\<lambda>s. s),
     uniform_int_distribution = (\<lambda>a b g. (a + int (g mod nat (b - a + 1)), (g * 5 + 3) mod 65536))\<rparr>"

text \<open>Where the run of two trials on the pin backend ends in this environment.\<close>

definition demo_final :: world where
  "demo_final = \<lparr>trace =
      [WiringPiSetup, PinMode 0 0, PullUpDnControl 0 2, PinMode 2 1,
       DigitalWrite 2 0, SleepFor 178, ClockNow 0, DigitalWrite 2 1,
       DigitalRead 0 1, DigitalRead 0 1, DigitalRead 0 0, ClockNow 100,
       DigitalWrite 2 0, DigitalRead 0 0, DigitalRead 0 1, SleepFor 115,
       ClockNow 400, DigitalWrite 2 1, DigitalRead 0 1, DigitalRead 0 0,
       ClockNow 900, DigitalWrite 2 0, DigitalRead 0 0, DigitalRead 0 1],
      n_pin = 9, n_clock = 4, n_read = 0, n_open = 0, n_ioctl = 0\<rparr>"

text \<open>Where one trial on the usb backend ends, on event device 3 with key 30, when the
  fourth \<^verbatim>\<open>open\<close> of the environment is the one that succeeds.\<close>

definition demo_usb_config :: program_config where
  "demo_usb_config = demo_config\<lparr>iterations := 1\<rparr>"

definition demo_usb_final :: world where
  "demo_usb_final = \<lparr>trace =
      [SysOpen ''/dev/input/event3'' 2048 5, WiringPiSetup, PinMode 0 0,
       PullUpDnControl 0 2, PinMode 2 1, DigitalWrite 2 0, SleepFor 178,
       ClockNow 0, DigitalWrite 2 1,
       SysRead 5 (- 1) (demo_event 1 30 1),
       SysRead 5 24 (demo_event 0 0 0),
       SysRead 5 24 (demo_event 1 31 1),
       SysRead 5 24 (demo_event 1 30 2),
       SysRead 5 24 (demo_event 1 30 1), ClockNow 100,
       DigitalWrite 2 0, SysRead 5 0 (demo_event 1 30 0),
       SysClose 5],
      n_pin = 0, n_clock = 2, n_read = 6, n_open = 4, n_ioctl = 0\<rparr>"

text \<open>The same surroundings with a clock that is set back after its first reading, as a
  wall clock can be, and the configuration of one trial on the pin backend.\<close>

definition clock_back_env :: env where
  "clock_back_env = demo_env\<lparr>clock_ns := (\<lambda>k. if k = 0 then 500 else 100)\<rparr>"

definition one_trial_config :: program_config where
  "one_trial_config = defaults\<lparr>iterations := 1, delay_min := 100, delay_max := 200, pin := True\<rparr>"

definition clock_back_final :: world where
  "clock_back_final = \<lparr>trace =
      [WiringPiSetup, PinMode 0 0, PullUpDnControl 0 2, PinMode 2 1,
       DigitalWrite 2 0, SleepFor 178, ClockNow 500, DigitalWrite 2 1,
       DigitalRead 0 1, DigitalRead 0 1, DigitalRead 0 0, ClockNow 100,
       DigitalWrite 2 0, DigitalRead 0 0, DigitalRead 0 1],
      n_pin = 5, n_clock = 2, n_read = 0, n_open = 0, n_ioctl = 0\<rparr>"


section \<open>The GPIO detection loop\<close>


lemma emit_simps [simp]:
  "trace (emit a w) = trace w @ [a]"
  "n_pin (emit a w) = n_pin w"
  "n_clock (emit a w) = n_clock w"
  "n_read (emit a w) = n_read w"
  "n_open (emit a w) = n_open w"
  "n_ioctl (emit a w) = n_ioctl w"
  by (simp_all add: emit_def)

lemma measure_pin_detect_unfold:
  "measure_pin_detect e pressed w =
     (if pin_level e (n_pin w) \<noteq> of_bool pressed then Some (after_pin_read e w)
      else measure_pin_detect e pressed (after_pin_read e w))"
  by (subst measure_pin_detect.simps)
     (simp add: digitalRead_def Let_def LOW_def HIGH_def emit_def after_pin_read_def)

lemma pin_polls_step: "k < n \<Longrightarrow> DigitalRead g_pin_input (pin_level e k) # pin_polls e (Suc k) n = pin_polls e k n"
  by (simp add: pin_polls_def upt_conv_Cons)

lemma measure_pin_detect_first:
  assumes "n_pin w \<le> n" and "pin_level e n \<noteq> of_bool pressed"
    and "\<forall>j. n_pin w \<le> j \<and> j < n \<longrightarrow> pin_level e j = of_bool pressed"
  shows "measure_pin_detect e pressed w =
           Some (w\<lparr>n_pin := Suc n, trace := trace w @ pin_polls e (n_pin w) (Suc n)\<rparr>)"
  using assms
proof (induction "n - n_pin w" arbitrary: w)
  case 0
  then have eq: "n_pin w = n" by simp
  show ?case
    by (subst measure_pin_detect_unfold)
       (use 0 eq in \<open>simp add: after_pin_read_def pin_polls_def\<close>)
next
  case (Suc d)
  let ?w' = "after_pin_read e w"
  from Suc have lt: "n_pin w < n" by simp
  with Suc.prems have here: "pin_level e (n_pin w) = of_bool pressed" by simp
  have "measure_pin_detect e pressed w = measure_pin_detect e pressed ?w'"
    by (subst measure_pin_detect_unfold) (simp add: here)
  also have "\<dots> = Some (?w'\<lparr>n_pin := Suc n, trace := trace ?w' @ pin_polls e (n_pin ?w') (Suc n)\<rparr>)"
    using Suc.hyps(2) Suc.prems lt by (intro Suc.hyps(1)) (auto simp: after_pin_read_def)
  also have "\<dots> = Some (w\<lparr>n_pin := Suc n, trace := trace w @ pin_polls e (n_pin w) (Suc n)\<rparr>)"
    using lt pin_polls_step [of "n_pin w" "Suc n" e] by (simp add: after_pin_read_def)
  finally show ?case .
qed

lemma measure_pin_detect_Some:
  assumes "measure_pin_detect e pressed w = Some w'"
  shows "\<exists>n \<ge> n_pin w. pin_level e n \<noteq> of_bool pressed
           \<and> (\<forall>j. n_pin w \<le> j \<and> j < n \<longrightarrow> pin_level e j = of_bool pressed)
           \<and> w' = w\<lparr>n_pin := Suc n, trace := trace w @ pin_polls e (n_pin w) (Suc n)\<rparr>"
  using assms
proof (induction rule: measure_pin_detect.raw_induct [rotated 1, consumes 1])
  case (1 detect e pressed w w')
  let ?w1 = "after_pin_read e w"
  show ?case
  proof (cases "pin_level e (n_pin w) = of_bool pressed")
    case False
    with 1(2) have "w' = ?w1"
      by (simp add: digitalRead_def Let_def LOW_def HIGH_def emit_def after_pin_read_def)
    with False show ?thesis
      by (intro exI [of _ "n_pin w"]) (simp add: pin_polls_def after_pin_read_def)
  next
    case True
    with 1(2) have "detect e pressed ?w1 = Some w'"
      by (simp add: digitalRead_def Let_def LOW_def HIGH_def emit_def after_pin_read_def)
    from 1(1) [OF this] obtain n where n: "n_pin ?w1 \<le> n" "pin_level e n \<noteq> of_bool pressed"
      "\<forall>j. n_pin ?w1 \<le> j \<and> j < n \<longrightarrow> pin_level e j = of_bool pressed"
      "w' = ?w1\<lparr>n_pin := Suc n, trace := trace ?w1 @ pin_polls e (n_pin ?w1) (Suc n)\<rparr>"
      by blast
    have s: "n_pin ?w1 = Suc (n_pin w)" by (simp add: after_pin_read_def)
    have "\<forall>j. n_pin w \<le> j \<and> j < n \<longrightarrow> pin_level e j = of_bool pressed"
      using n(3) True unfolding s by (metis Suc_leI le_neq_implies_less)
    moreover have "w' = w\<lparr>n_pin := Suc n, trace := trace w @ pin_polls e (n_pin w) (Suc n)\<rparr>"
      using n(1,4) pin_polls_step [of "n_pin w" "Suc n" e] by (simp add: after_pin_read_def)
    ultimately show ?thesis using n(1,2) unfolding s by (intro exI [of _ n]) simp
  qed
qed


text \<open>
  C1. Whatever levels the pin shows (each read LOW or HIGH), the GPIO detection loop
  called with \<open>asserted\<close> returns exactly after the first read that shows the expected
  level, LOW when \<open>asserted\<close> is true and HIGH when it is false; every read before that
  one showed the other level and was followed at once by the next read: the calls the
  loop adds to the history are these reads and nothing else (no sleep). When no read
  ever shows the expected level the loop does not return.
\<close>

theorem measure_pin_detect_first_expected_level:
  assumes "\<forall>j \<ge> n_pin w. pin_level e j = LOW \<or> pin_level e j = HIGH"
  shows "measure_pin_detect e asserted w = Some w' \<longleftrightarrow>
           (\<exists>n \<ge> n_pin w.
              pin_level e n = (if asserted then LOW else HIGH)
              \<and> (\<forall>j. n_pin w \<le> j \<and> j < n \<longrightarrow> pin_level e j \<noteq> (if asserted then LOW else HIGH))
              \<and> w' = w\<lparr>n_pin := Suc n, trace := trace w @ pin_polls e (n_pin w) (Suc n)\<rparr>)"
proof -
  have lv: "pin_level e j \<noteq> of_bool asserted \<longleftrightarrow> pin_level e j = (if asserted then LOW else HIGH)"
    if "n_pin w \<le> j" for j
    using assms that by (auto simp: LOW_def HIGH_def)
  show ?thesis
  proof
    assume "measure_pin_detect e asserted w = Some w'"
    from measure_pin_detect_Some [OF this] obtain n where n: "n_pin w \<le> n"
      "pin_level e n \<noteq> of_bool asserted"
      "\<forall>j. n_pin w \<le> j \<and> j < n \<longrightarrow> pin_level e j = of_bool asserted"
      "w' = w\<lparr>n_pin := Suc n, trace := trace w @ pin_polls e (n_pin w) (Suc n)\<rparr>"
      by blast
    show "\<exists>n \<ge> n_pin w.
              pin_level e n = (if asserted then LOW else HIGH)
              \<and> (\<forall>j. n_pin w \<le> j \<and> j < n \<longrightarrow> pin_level e j \<noteq> (if asserted then LOW else HIGH))
              \<and> w' = w\<lparr>n_pin := Suc n, trace := trace w @ pin_polls e (n_pin w) (Suc n)\<rparr>"
      using n lv by (intro exI [of _ n]) (metis (full_types))
  next
    assume "\<exists>n \<ge> n_pin w.
              pin_level e n = (if asserted then LOW else HIGH)
              \<and> (\<forall>j. n_pin w \<le> j \<and> j < n \<longrightarrow> pin_level e j \<noteq> (if asserted then LOW else HIGH))
              \<and> w' = w\<lparr>n_pin := Suc n, trace := trace w @ pin_polls e (n_pin w) (Suc n)\<rparr>"
    then obtain n where n: "n_pin w \<le> n" "pin_level e n = (if asserted then LOW else HIGH)"
      "\<forall>j. n_pin w \<le> j \<and> j < n \<longrightarrow> pin_level e j \<noteq> (if asserted then LOW else HIGH)"
      "w' = w\<lparr>n_pin := Suc n, trace := trace w @ pin_polls e (n_pin w) (Suc n)\<rparr>"
      by blast
    have a: "pin_level e n \<noteq> of_bool asserted" using n(1,2) lv by blast
    have b: "\<forall>j. n_pin w \<le> j \<and> j < n \<longrightarrow> pin_level e j = of_bool asserted"
      using n(3) lv by blast
    show "measure_pin_detect e asserted w = Some w'"
      using measure_pin_detect_first [OF n(1) a b] n(4) by simp
  qed
qed

text \<open>The pin reads HIGH, HIGH, LOW: waiting for the asserted state takes three reads.\<close>

theorem measure_pin_detect_first_expected_level_witness:
  "measure_pin_detect demo_env True world0 =
     Some (world0\<lparr>n_pin := 3,
             trace := [DigitalRead 0 1, DigitalRead 0 1, DigitalRead 0 0]\<rparr>)"
proof -
  have h: "\<forall>j \<ge> n_pin world0. pin_level demo_env j = LOW \<or> pin_level demo_env j = HIGH"
    by (simp add: demo_env_def LOW_def HIGH_def)
  have ex: "\<exists>n \<ge> n_pin world0.
              pin_level demo_env n = (if True then LOW else HIGH)
              \<and> (\<forall>j. n_pin world0 \<le> j \<and> j < n \<longrightarrow> pin_level demo_env j \<noteq> (if True then LOW else HIGH))
              \<and> world0\<lparr>n_pin := 3, trace := [DigitalRead 0 1, DigitalRead 0 1, DigitalRead 0 0]\<rparr>
                  = world0\<lparr>n_pin := Suc n, trace := trace world0 @ pin_polls demo_env (n_pin world0) (Suc n)\<rparr>"
    by (intro exI [of _ 2])
       (simp add: demo_env_def world0_def LOW_def HIGH_def pin_polls_def g_pin_input_def
          upt_conv_Cons numeral_3_eq_3)
  show ?thesis
    using measure_pin_detect_first_expected_level [OF h, of True] ex by blast
qed

section \<open>The evdev detection loop\<close>


lemma sint_eq_1_iff: "sint (v :: 32 word) = 1 \<longleftrightarrow> v = 1"
proof -
  have "sint v = sint (1 :: 32 word) \<longleftrightarrow> v = 1" by (auto intro: signed_word_eqI)
  then show ?thesis by simp
qed

lemma sint_eq_0_iff: "sint (v :: 32 word) = 0 \<longleftrightarrow> v = 0"
  by (simp add: signed_eq_0_iff)

lemma measure_usb_detect_unfold:
  "measure_usb_detect e c fd pressed w =
     (if usb_hit e c pressed (n_read w) then Some (after_usb_read e fd w)
      else measure_usb_detect e c fd pressed (after_usb_read e fd w))"
  by (subst measure_usb_detect.simps)
     (auto simp: sys_read_def Let_def emit_def after_usb_read_def usb_hit_def
        is_expected_key_event_def sint_eq_1_iff sint_eq_0_iff split: prod.splits)

lemma usb_polls_step:
  "k < n \<Longrightarrow> SysRead fd (fst (ev_read e k)) (snd (ev_read e k)) # usb_polls e fd (Suc k) n = usb_polls e fd k n"
  by (simp add: usb_polls_def upt_conv_Cons)

lemma after_usb_read_simps [simp]:
  "n_read (after_usb_read e fd w) = Suc (n_read w)"
  "trace (after_usb_read e fd w) = trace w @ [SysRead fd (fst (ev_read e (n_read w))) (snd (ev_read e (n_read w)))]"
  by (simp_all add: after_usb_read_def)

lemma measure_usb_detect_first:
  assumes "n_read w \<le> n" and "usb_hit e c pressed n"
    and "\<forall>j. n_read w \<le> j \<and> j < n \<longrightarrow> \<not> usb_hit e c pressed j"
  shows "measure_usb_detect e c fd pressed w =
           Some (w\<lparr>n_read := Suc n, trace := trace w @ usb_polls e fd (n_read w) (Suc n)\<rparr>)"
  using assms
proof (induction "n - n_read w" arbitrary: w)
  case 0
  then have eq: "n_read w = n" by simp
  show ?case
    by (subst measure_usb_detect_unfold)
       (use 0 eq in \<open>simp add: after_usb_read_def usb_polls_def\<close>)
next
  case (Suc d)
  let ?w' = "after_usb_read e fd w"
  from Suc have lt: "n_read w < n" by simp
  with Suc.prems have here: "\<not> usb_hit e c pressed (n_read w)" by simp
  have "measure_usb_detect e c fd pressed w = measure_usb_detect e c fd pressed ?w'"
    by (subst measure_usb_detect_unfold) (simp add: here)
  also have "\<dots> = Some (?w'\<lparr>n_read := Suc n, trace := trace ?w' @ usb_polls e fd (n_read ?w') (Suc n)\<rparr>)"
    using Suc.hyps(2) Suc.prems lt by (intro Suc.hyps(1)) auto
  also have "\<dots> = Some (w\<lparr>n_read := Suc n, trace := trace w @ usb_polls e fd (n_read w) (Suc n)\<rparr>)"
    using lt usb_polls_step [of "n_read w" "Suc n" fd e] by (simp add: after_usb_read_def)
  finally show ?case .
qed

lemma measure_usb_detect_Some:
  assumes "measure_usb_detect e c fd pressed w = Some w'"
  shows "\<exists>n \<ge> n_read w. usb_hit e c pressed n
           \<and> (\<forall>j. n_read w \<le> j \<and> j < n \<longrightarrow> \<not> usb_hit e c pressed j)
           \<and> w' = w\<lparr>n_read := Suc n, trace := trace w @ usb_polls e fd (n_read w) (Suc n)\<rparr>"
  using assms
proof (induction rule: measure_usb_detect.raw_induct [rotated 1, consumes 1])
  case (1 detect e c fd pressed w w')
  let ?w1 = "after_usb_read e fd w"
  have step: "(if usb_hit e c pressed (n_read w) then Some ?w1 else detect e c fd pressed ?w1) = Some w'"
    using 1(2)
    by (auto simp: sys_read_def Let_def emit_def after_usb_read_def usb_hit_def
          is_expected_key_event_def sint_eq_1_iff sint_eq_0_iff split: prod.splits if_splits)
  show ?case
  proof (cases "usb_hit e c pressed (n_read w)")
    case True
    with step have "w' = ?w1" by simp
    with True show ?thesis
      by (intro exI [of _ "n_read w"]) (auto simp: usb_polls_def after_usb_read_def)
  next
    case False
    with step have "detect e c fd pressed ?w1 = Some w'" by simp
    from 1(1) [OF this] obtain n where n: "n_read ?w1 \<le> n" "usb_hit e c pressed n"
      "\<forall>j. n_read ?w1 \<le> j \<and> j < n \<longrightarrow> \<not> usb_hit e c pressed j"
      "w' = ?w1\<lparr>n_read := Suc n, trace := trace ?w1 @ usb_polls e fd (n_read ?w1) (Suc n)\<rparr>"
      by blast
    have s: "n_read ?w1 = Suc (n_read w)" by simp
    have "\<forall>j. n_read w \<le> j \<and> j < n \<longrightarrow> \<not> usb_hit e c pressed j"
      using n(3) False unfolding s by (metis Suc_leI le_neq_implies_less)
    moreover have "w' = w\<lparr>n_read := Suc n, trace := trace w @ usb_polls e fd (n_read w) (Suc n)\<rparr>"
      using n(1,4) usb_polls_step [of "n_read w" "Suc n" fd e] by (simp add: after_usb_read_def)
    ultimately show ?thesis using n(1,2) unfolding s by (intro exI [of _ n]) simp
  qed
qed


text \<open>
  C2. The evdev detection loop called with \<open>asserted\<close> returns exactly after the first
  successfully read record (a read that did not return -1) that is a key event of the
  configured key with value 1 when \<open>asserted\<close> is true and 0 when it is false. Every
  record read before it, whatever it holds (another key, a sync event, a key repeat), is
  dropped and the next read follows at once: the calls the loop adds to the history are
  these reads and nothing else. When no such record ever comes the loop does not return.
\<close>

theorem measure_usb_detect_first_expected_event:
  "measure_usb_detect e c fd asserted w = Some w' \<longleftrightarrow>
     (\<exists>n \<ge> n_read w.
        fst (ev_read e n) \<noteq> - 1
        \<and> is_expected_key_event c asserted (snd (ev_read e n))
        \<and> (\<forall>j. n_read w \<le> j \<and> j < n \<and> fst (ev_read e j) \<noteq> - 1
               \<longrightarrow> \<not> is_expected_key_event c asserted (snd (ev_read e j)))
        \<and> w' = w\<lparr>n_read := Suc n, trace := trace w @ usb_polls e fd (n_read w) (Suc n)\<rparr>)"
proof
  assume "measure_usb_detect e c fd asserted w = Some w'"
  from measure_usb_detect_Some [OF this] obtain n where n: "n_read w \<le> n"
    "usb_hit e c asserted n"
    "\<forall>j. n_read w \<le> j \<and> j < n \<longrightarrow> \<not> usb_hit e c asserted j"
    "w' = w\<lparr>n_read := Suc n, trace := trace w @ usb_polls e fd (n_read w) (Suc n)\<rparr>"
    by blast
  then show "\<exists>n \<ge> n_read w.
        fst (ev_read e n) \<noteq> - 1
        \<and> is_expected_key_event c asserted (snd (ev_read e n))
        \<and> (\<forall>j. n_read w \<le> j \<and> j < n \<and> fst (ev_read e j) \<noteq> - 1
               \<longrightarrow> \<not> is_expected_key_event c asserted (snd (ev_read e j)))
        \<and> w' = w\<lparr>n_read := Suc n, trace := trace w @ usb_polls e fd (n_read w) (Suc n)\<rparr>"
    unfolding usb_hit_def by (intro exI [of _ n]) blast
next
  assume "\<exists>n \<ge> n_read w.
        fst (ev_read e n) \<noteq> - 1
        \<and> is_expected_key_event c asserted (snd (ev_read e n))
        \<and> (\<forall>j. n_read w \<le> j \<and> j < n \<and> fst (ev_read e j) \<noteq> - 1
               \<longrightarrow> \<not> is_expected_key_event c asserted (snd (ev_read e j)))
        \<and> w' = w\<lparr>n_read := Suc n, trace := trace w @ usb_polls e fd (n_read w) (Suc n)\<rparr>"
  then obtain n where n: "n_read w \<le> n" "usb_hit e c asserted n"
    "\<forall>j. n_read w \<le> j \<and> j < n \<longrightarrow> \<not> usb_hit e c asserted j"
    "w' = w\<lparr>n_read := Suc n, trace := trace w @ usb_polls e fd (n_read w) (Suc n)\<rparr>"
    unfolding usb_hit_def by blast
  show "measure_usb_detect e c fd asserted w = Some w'"
    using measure_usb_detect_first [OF n(1,2,3)] n(4) by simp
qed

text \<open>A failed read, a sync event, another key and a key repeat come first; the fifth read
  brings the press of key 30.\<close>

theorem measure_usb_detect_first_expected_event_witness:
  "measure_usb_detect demo_env demo_config 5 True world0 =
     Some (world0\<lparr>n_read := 5,
             trace := [SysRead 5 (- 1) (demo_event 1 30 1), SysRead 5 24 (demo_event 0 0 0),
                       SysRead 5 24 (demo_event 1 31 1), SysRead 5 24 (demo_event 1 30 2),
                       SysRead 5 24 (demo_event 1 30 1)]\<rparr>)"
proof -
  have ex: "\<exists>n \<ge> n_read world0.
        fst (ev_read demo_env n) \<noteq> - 1
        \<and> is_expected_key_event demo_config True (snd (ev_read demo_env n))
        \<and> (\<forall>j. n_read world0 \<le> j \<and> j < n \<and> fst (ev_read demo_env j) \<noteq> - 1
               \<longrightarrow> \<not> is_expected_key_event demo_config True (snd (ev_read demo_env j)))
        \<and> world0\<lparr>n_read := 5,
             trace := [SysRead 5 (- 1) (demo_event 1 30 1), SysRead 5 24 (demo_event 0 0 0),
                       SysRead 5 24 (demo_event 1 31 1), SysRead 5 24 (demo_event 1 30 2),
                       SysRead 5 24 (demo_event 1 30 1)]\<rparr>
            = world0\<lparr>n_read := Suc n,
                trace := trace world0 @ usb_polls demo_env 5 (n_read world0) (Suc n)\<rparr>"
    by (intro exI [of _ 4])
       (simp add: demo_env_def demo_config_def defaults_def world0_def is_expected_key_event_def
          demo_event_def EV_KEY_def usb_polls_def upt_conv_Cons)
  show ?thesis
    using measure_usb_detect_first_expected_event [of demo_env demo_config 5 True world0] ex
    by blast
qed

text \<open>
  C10. One round of the evdev loop: a return value of exactly -1 sends the loop to the
  next read without a look at the buffer; any other return value (0 bytes, a partial
  record) is taken for a read record: the buffer is inspected, and the loop returns when
  it holds the expected event.
\<close>

theorem measure_usb_detect_retries_only_on_minus_one:
  "measure_usb_detect e c fd pressed w =
     (if fst (ev_read e (n_read w)) = - 1
      then measure_usb_detect e c fd pressed (after_usb_read e fd w)
      else if is_expected_key_event c pressed (snd (ev_read e (n_read w)))
      then Some (after_usb_read e fd w)
      else measure_usb_detect e c fd pressed (after_usb_read e fd w))"
  by (subst measure_usb_detect_unfold) (simp add: usb_hit_def)

text \<open>The sixth read returns 0, no byte read, and the buffer holds the release of key 30:
  the wait for the release ends there.\<close>

theorem measure_usb_detect_retries_only_on_minus_one_witness:
  "measure_usb_detect demo_env demo_config 5 False (world0\<lparr>n_read := 5\<rparr>) =
     Some (world0\<lparr>n_read := 6, trace := [SysRead 5 0 (demo_event 1 30 0)]\<rparr>)"
  using measure_usb_detect_retries_only_on_minus_one [of demo_env demo_config 5 False "world0\<lparr>n_read := 5\<rparr>"]
  by (simp add: demo_env_def demo_config_def defaults_def world0_def is_expected_key_event_def
        demo_event_def EV_KEY_def after_usb_read_def)

section \<open>The delay generator\<close>


lemma length_generate [simp]: "length (generate f n g) = n"
  by (induction n arbitrary: g) (auto split: prod.splits)

lemma generate_range:
  assumes "\<And>g. lo \<le> fst (f g) \<and> fst (f g) \<le> hi"
  shows "d \<in> set (generate f n g) \<Longrightarrow> lo \<le> d \<and> d \<le> hi"
proof (induction n arbitrary: g)
  case 0
  then show ?case by simp
next
  case (Suc n)
  obtain v g' where fg: "f g = (v, g')" by (cases "f g")
  with Suc.prems have "d = v \<or> d \<in> set (generate f n g')" by simp
  then show ?case
  proof
    assume "d = v"
    with assms [of g] fg show ?thesis by simp
  next
    assume "d \<in> set (generate f n g')"
    then show ?thesis by (rule Suc.IH)
  qed
qed

lemma demo_rng_contract: "uniform_int_contract demo_rng"
proof -
  have "(a :: int) \<le> a + int (g mod nat (b - a + 1)) \<and> a + int (g mod nat (b - a + 1)) \<le> b"
    if "a \<le> b" for a b and g :: nat
  proof -
    have "g mod nat (b - a + 1) < nat (b - a + 1)" using that by (intro mod_less_divisor) simp
    then show ?thesis using that by linarith
  qed
  then show ?thesis by (simp add: uniform_int_contract_def demo_rng_def)
qed

lemma get_delays_demo: "get_delays demo_rng demo_config = Some [178, 115]"
  by (simp add: get_delays_def demo_rng_def demo_config_def defaults_def numeral_2_eq_2)

text \<open>
  C4. The delay sequence is a function of the iteration count and the two bounds alone:
  the engine is constructed inside every call from the constant seed 30378, and no state
  of an earlier call or of the surroundings enters. Two calls under configurations that
  agree on the three fields return the same sequence.
\<close>

theorem get_delays_deterministic:
  assumes "iterations c = iterations c'" and "delay_min c = delay_min c'"
    and "delay_max c = delay_max c'"
  shows "get_delays r c = get_delays r c'
         \<and> (0 \<le> iterations c \<longrightarrow>
              get_delays r c = Some (generate (uniform_int_distribution r (delay_min c) (delay_max c))
                                       (nat (iterations c)) (mt19937 r 30378)))"
  using assms by (simp add: get_delays_def)

theorem get_delays_deterministic_witness:
  "get_delays demo_rng demo_config
     = get_delays demo_rng (demo_config\<lparr>pin := True, summary := True, key := None\<rparr>)
   \<and> get_delays demo_rng demo_config = Some [178, 115]"
proof -
  have "iterations demo_config = iterations (demo_config\<lparr>pin := True, summary := True, key := None\<rparr>)"
    and "delay_min demo_config = delay_min (demo_config\<lparr>pin := True, summary := True, key := None\<rparr>)"
    and "delay_max demo_config = delay_max (demo_config\<lparr>pin := True, summary := True, key := None\<rparr>)"
    by simp_all
  from get_delays_deterministic [OF this, of demo_rng] show ?thesis
    by (simp add: get_delays_demo)
qed

text \<open>
  C5. With bounds \<open>delay_min \<le> delay_max\<close> and a distribution that keeps the standard's
  promise, every generated delay lies in the closed range between the bounds, there is one
  delay per iteration, and equal bounds give the constant sequence.
\<close>

theorem get_delays_in_range:
  assumes "uniform_int_contract r" and "delay_min c \<le> delay_max c"
    and "get_delays r c = Some delays"
  shows "(\<forall>d \<in> set delays. delay_min c \<le> d \<and> d \<le> delay_max c)
         \<and> int (length delays) = iterations c
         \<and> (delay_min c = delay_max c \<longrightarrow> delays = replicate (nat (iterations c)) (delay_min c))"
proof -
  let ?f = "uniform_int_distribution r (delay_min c) (delay_max c)"
  from assms(3) have it: "0 \<le> iterations c"
    and d: "delays = generate ?f (nat (iterations c)) (mt19937 r 30378)"
    by (auto simp: get_delays_def split: if_splits)
  have f: "delay_min c \<le> fst (?f g) \<and> fst (?f g) \<le> delay_max c" for g
    using assms(1,2) by (simp add: uniform_int_contract_def)
  have r: "\<forall>x \<in> set delays. delay_min c \<le> x \<and> x \<le> delay_max c"
    unfolding d using generate_range [of "delay_min c" ?f "delay_max c"] f by blast
  have len: "length delays = nat (iterations c)" by (simp add: d)
  have "delays = replicate (nat (iterations c)) (delay_min c)" if "delay_min c = delay_max c"
    using r that len by (intro replicate_eqI) auto
  with r len it show ?thesis by simp
qed

theorem get_delays_in_range_witness:
  "get_delays demo_rng demo_config = Some [178, 115]
   \<and> list_all (\<lambda>d. delay_min demo_config \<le> d \<and> d \<le> delay_max demo_config) [178, 115]
   \<and> get_delays demo_rng (demo_config\<lparr>delay_max := 100\<rparr>) = Some [100, 100]"
proof -
  have le: "delay_min demo_config \<le> delay_max demo_config"
    by (simp add: demo_config_def)
  from get_delays_in_range [OF demo_rng_contract le get_delays_demo]
  have a: "list_all (\<lambda>d. delay_min demo_config \<le> d \<and> d \<le> delay_max demo_config) [178, 115]"
    by simp
  obtain ds where ds: "get_delays demo_rng (demo_config\<lparr>delay_max := 100\<rparr>) = Some ds"
    by (simp add: get_delays_def demo_config_def)
  have le': "delay_min (demo_config\<lparr>delay_max := 100\<rparr>) \<le> delay_max (demo_config\<lparr>delay_max := 100\<rparr>)"
    by (simp add: demo_config_def)
  from get_delays_in_range [OF demo_rng_contract le' ds]
  have "ds = [100, 100]" by (simp add: demo_config_def numeral_2_eq_2)
  with ds a get_delays_demo show ?thesis by simp
qed

section \<open>The measurement loop\<close>


lemma measure_loop_for_done:
  "\<not> i < n \<Longrightarrow> measure_loop_for detect e delays n i tms w = Some (tms, w)"
  by (subst measure_loop_for.simps) simp

lemma measure_loop_for_step:
  "i < n \<Longrightarrow>
   measure_loop_for detect e delays n i tms w =
     (case detect True (trial_begin e (delays ! i) w) of
        None \<Rightarrow> None
      | Some w4 \<Rightarrow>
          (case detect False (trial_mid e w4) of
             None \<Rightarrow> None
           | Some w7 \<Rightarrow>
               measure_loop_for detect e delays n (Suc i)
                 (tms[i := clock_ns e (n_clock w4) - clock_ns e (n_clock w)]) w7))"
  by (subst measure_loop_for.simps)
     (simp add: Let_def now_def sleep_for_def digitalWrite_def emit_def trial_begin_def
        trial_mid_def split: option.splits)

lemma measure_loop_for_trace:
  assumes po: "polls_only detect"
  shows "measure_loop_for detect e delays n i tms w = Some (tms', w') \<Longrightarrow> i \<le> n \<Longrightarrow>
         length delays = n \<Longrightarrow> length tms = n \<Longrightarrow>
         (\<exists>segs. length segs = n - i
            \<and> list_all (\<lambda>(a, b). list_all is_poll a \<and> list_all is_poll b) segs
            \<and> trace w' = trace w @ trial_trace e (n_clock w) (drop i delays) segs)
         \<and> n_clock w' = n_clock w + 2 * (n - i)
         \<and> n_open w' = n_open w \<and> n_ioctl w' = n_ioctl w
         \<and> length tms' = n
         \<and> (\<forall>j < i. tms' ! j = tms ! j)
         \<and> (\<forall>j. i \<le> j \<and> j < n \<longrightarrow>
               tms' ! j = clock_ns e (n_clock w + 2 * (j - i) + 1) - clock_ns e (n_clock w + 2 * (j - i)))"
proof (induction "n - i" arbitrary: i tms w)
  case 0
  then have "i = n" by simp
  with 0 show ?case by (simp add: measure_loop_for_done)
next
  case (Suc m)
  then have lt: "i < n" by simp
  let ?k = "n_clock w"
  let ?wa = "trial_begin e (delays ! i) w"
  from Suc.prems(1) lt obtain w4 where w4: "detect True ?wa = Some w4"
    by (auto simp: measure_loop_for_step split: option.splits)
  let ?wb = "trial_mid e w4"
  from Suc.prems(1) lt w4 obtain w7 where w7: "detect False ?wb = Some w7"
    by (auto simp: measure_loop_for_step split: option.splits)
  let ?v = "clock_ns e (n_clock w4) - clock_ns e ?k"
  from Suc.prems(1) lt w4 w7
  have rec: "measure_loop_for detect e delays n (Suc i) (tms[i := ?v]) w7 = Some (tms', w')"
    by (simp add: measure_loop_for_step)
  from po w4 obtain a where a: "n_clock w4 = n_clock ?wa" "n_open w4 = n_open ?wa"
    "n_ioctl w4 = n_ioctl ?wa" "trace w4 = trace ?wa @ a" "list_all is_poll a"
    unfolding polls_only_def by blast
  from po w7 obtain b where b: "n_clock w7 = n_clock ?wb" "n_open w7 = n_open ?wb"
    "n_ioctl w7 = n_ioctl ?wb" "trace w7 = trace ?wb @ b" "list_all is_poll b"
    unfolding polls_only_def by blast
  have k4: "n_clock w4 = Suc ?k" using a(1) by (simp add: trial_begin_def)
  have k7: "n_clock w7 = Suc (Suc ?k)" using b(1) k4 by (simp add: trial_mid_def)
  have o7: "n_open w7 = n_open w" "n_ioctl w7 = n_ioctl w"
    using a(2,3) b(2,3) by (simp_all add: trial_mid_def trial_begin_def)
  have tr7: "trace w7 = trace w @ [SleepFor (delays ! i), ClockNow (clock_ns e ?k),
       DigitalWrite g_pin_output HIGH] @ a @ [ClockNow (clock_ns e (Suc ?k)),
       DigitalWrite g_pin_output LOW] @ b"
    using a(4) b(4) k4 by (simp add: trial_mid_def trial_begin_def)
  have m: "m = n - Suc i" using Suc.hyps(2) by simp
  have ih: "(\<exists>segs. length segs = n - Suc i
            \<and> list_all (\<lambda>(a, b). list_all is_poll a \<and> list_all is_poll b) segs
            \<and> trace w' = trace w7 @ trial_trace e (n_clock w7) (drop (Suc i) delays) segs)
         \<and> n_clock w' = n_clock w7 + 2 * (n - Suc i)
         \<and> n_open w' = n_open w7 \<and> n_ioctl w' = n_ioctl w7
         \<and> length tms' = n
         \<and> (\<forall>j < Suc i. tms' ! j = (tms[i := ?v]) ! j)
         \<and> (\<forall>j. Suc i \<le> j \<and> j < n \<longrightarrow>
               tms' ! j = clock_ns e (n_clock w7 + 2 * (j - Suc i) + 1)
                          - clock_ns e (n_clock w7 + 2 * (j - Suc i)))"
    using Suc.hyps(1) [OF m rec] lt Suc.prems(3,4) by simp
  then obtain segs' where segs': "length segs' = n - Suc i"
    "list_all (\<lambda>(a, b). list_all is_poll a \<and> list_all is_poll b) segs'"
    "trace w' = trace w7 @ trial_trace e (n_clock w7) (drop (Suc i) delays) segs'"
    by blast
  have dr: "drop i delays = delays ! i # drop (Suc i) delays"
    using lt Suc.prems(3) by (simp add: Cons_nth_drop_Suc)
  have "length ((a, b) # segs') = n - i
        \<and> list_all (\<lambda>(a, b). list_all is_poll a \<and> list_all is_poll b) ((a, b) # segs')
        \<and> trace w' = trace w @ trial_trace e ?k (drop i delays) ((a, b) # segs')"
    using segs' lt a(5) b(5) tr7 k7 by (simp add: dr)
  then have 1: "\<exists>segs. length segs = n - i
            \<and> list_all (\<lambda>(a, b). list_all is_poll a \<and> list_all is_poll b) segs
            \<and> trace w' = trace w @ trial_trace e ?k (drop i delays) segs"
    by blast
  have 2: "n_clock w' = ?k + 2 * (n - i)" using ih k7 lt by simp
  have 3: "n_open w' = n_open w \<and> n_ioctl w' = n_ioctl w" using ih o7 by simp
  have 4: "length tms' = n" using ih by simp
  have 5: "\<forall>j < i. tms' ! j = tms ! j"
  proof (intro allI impI)
    fix j assume "j < i"
    with ih have "tms' ! j = (tms[i := ?v]) ! j" by simp
    with \<open>j < i\<close> show "tms' ! j = tms ! j" by simp
  qed
  have 6: "\<forall>j. i \<le> j \<and> j < n \<longrightarrow>
               tms' ! j = clock_ns e (?k + 2 * (j - i) + 1) - clock_ns e (?k + 2 * (j - i))"
  proof (intro allI impI)
    fix j assume j: "i \<le> j \<and> j < n"
    show "tms' ! j = clock_ns e (?k + 2 * (j - i) + 1) - clock_ns e (?k + 2 * (j - i))"
    proof (cases "j = i")
      case True
      with ih have "tms' ! j = (tms[i := ?v]) ! i" by simp
      also have "\<dots> = ?v" using lt Suc.prems(4) by simp
      finally show ?thesis using True k4 by simp
    next
      case False
      with j have s: "Suc i \<le> j \<and> j < n" by simp
      then have e1: "n_clock w7 + 2 * (j - Suc i) = ?k + 2 * (j - i)" using k7 by arith
      from ih s have "tms' ! j = clock_ns e (n_clock w7 + 2 * (j - Suc i) + 1)
                          - clock_ns e (n_clock w7 + 2 * (j - Suc i))" by blast
      then show ?thesis unfolding e1 .
    qed
  qed
  from 1 2 3 4 5 6 show ?case by blast
qed


lemma demo_env_simps:
  "pin_level demo_env k = (if k mod 4 < 2 then 1 else 0)"
  "clock_ns demo_env k = 100 * int (k * k)"
  by (simp_all add: demo_env_def)

lemma demo_config_simps:
  "iterations demo_config = 2" "summary demo_config = False"
  by (simp_all add: demo_config_def defaults_def)

lemma demo_run:
  "measure_loop demo_rng demo_env demo_config (measure_pin_detect demo_env) world0
     = Some (Inr [100, 500], demo_final)"
proof -
  have r: "replicate 2 (0 :: int) = [0, 0]" by (simp add: numeral_2_eq_2)
  show ?thesis
    by (simp add: measure_loop_def get_delays_demo demo_config_simps init_pins_def r
        Let_def digitalWrite_def emit_def world0_def measure_loop_for_step
        measure_loop_for_done trial_begin_def trial_mid_def measure_pin_detect_unfold
        after_pin_read_def demo_env_simps demo_final_def g_pin_input_def g_pin_output_def
        LOW_def HIGH_def INPUT_def OUTPUT_def PUD_UP_def)
qed


lemma list_all_pin_polls: "list_all is_poll (pin_polls e k n)"
  by (simp add: pin_polls_def list_all_iff is_poll_def)

lemma list_all_usb_polls: "list_all is_poll (usb_polls e fd k n)"
  by (simp add: usb_polls_def list_all_iff is_poll_def)

lemma polls_only_pin: "polls_only (measure_pin_detect e)"
  unfolding polls_only_def
proof (intro allI impI)
  fix b w w'
  assume "measure_pin_detect e b w = Some w'"
  from measure_pin_detect_Some [OF this] obtain n where
    "w' = w\<lparr>n_pin := Suc n, trace := trace w @ pin_polls e (n_pin w) (Suc n)\<rparr>"
    by blast
  then show "n_clock w' = n_clock w \<and> n_open w' = n_open w \<and> n_ioctl w' = n_ioctl w
             \<and> (\<exists>acts. trace w' = trace w @ acts \<and> list_all is_poll acts)"
    using list_all_pin_polls by auto
qed

lemma polls_only_usb: "polls_only (measure_usb_detect e c fd)"
  unfolding polls_only_def
proof (intro allI impI)
  fix b w w'
  assume "measure_usb_detect e c fd b w = Some w'"
  from measure_usb_detect_Some [OF this] obtain n where
    "w' = w\<lparr>n_read := Suc n, trace := trace w @ usb_polls e fd (n_read w) (Suc n)\<rparr>"
    by blast
  then show "n_clock w' = n_clock w \<and> n_open w' = n_open w \<and> n_ioctl w' = n_ioctl w
             \<and> (\<exists>acts. trace w' = trace w @ acts \<and> list_all is_poll acts)"
    using list_all_usb_polls by auto
qed

lemma loop_start_counters [simp]:
  "n_clock (loop_start c w) = n_clock w"
  "n_open (loop_start c w) = n_open w"
  "n_ioctl (loop_start c w) = n_ioctl w"
  by (simp_all add: loop_start_def init_pins_def print_config_def digitalWrite_def Let_def)

lemma trace_loop_start:
  "trace (loop_start c w) =
     trace w @ (if summary c then [last (trace (print_config c w))] else [])
     @ [WiringPiSetup, PinMode g_pin_input INPUT, PullUpDnControl g_pin_input PUD_UP,
        PinMode g_pin_output OUTPUT, DigitalWrite g_pin_output LOW]"
  by (simp add: loop_start_def init_pins_def print_config_def digitalWrite_def Let_def)

lemma measure_loop_shape:
  assumes "polls_only detect" and "measure_loop r e c detect w = Some (Inr samples, w')"
  shows "\<exists>delays segs. get_delays r c = Some delays
           \<and> length delays = nat (iterations c)
           \<and> length segs = nat (iterations c)
           \<and> list_all (\<lambda>(a, b). list_all is_poll a \<and> list_all is_poll b) segs
           \<and> trace w' = trace (loop_start c w) @ trial_trace e (n_clock w) delays segs"
    and "n_open w' = n_open w \<and> n_ioctl w' = n_ioctl w"
    and "0 \<le> iterations c"
    and "length samples = nat (iterations c)"
    and "\<forall>i < nat (iterations c).
           samples ! i = clock_ns e (n_clock w + 2 * i + 1) - clock_ns e (n_clock w + 2 * i)"
proof -
  let ?n = "nat (iterations c)"
  from assms(2) obtain delays where d: "get_delays r c = Some delays"
    by (auto simp: measure_loop_def Let_def split: option.splits)
  then have it: "0 \<le> iterations c" and len: "length delays = ?n"
    by (auto simp: get_delays_def Let_def split: if_splits)
  from assms(2) d have run:
    "measure_loop_for detect e delays ?n 0 (replicate ?n 0) (loop_start c w) = Some (samples, w')"
    by (auto simp: measure_loop_def loop_start_def Let_def split: option.splits)
  note t = measure_loop_for_trace [OF assms(1) run _ len, simplified]
  from t d len show "\<exists>delays segs. get_delays r c = Some delays
           \<and> length delays = nat (iterations c)
           \<and> length segs = nat (iterations c)
           \<and> list_all (\<lambda>(a, b). list_all is_poll a \<and> list_all is_poll b) segs
           \<and> trace w' = trace (loop_start c w) @ trial_trace e (n_clock w) delays segs"
    by auto
  from t show "n_open w' = n_open w \<and> n_ioctl w' = n_ioctl w" by simp
  from it show "0 \<le> iterations c" .
  from t show "length samples = ?n" by simp
  from t show "\<forall>i < ?n. samples ! i = clock_ns e (n_clock w + 2 * i + 1) - clock_ns e (n_clock w + 2 * i)"
    by simp
qed


lemma trial_times_eqI:
  assumes "length xs = n"
    and "\<forall>i < n. xs ! i = clock_ns e (k + 2 * i + 1) - clock_ns e (k + 2 * i)"
  shows "xs = trial_times e k n"
  using assms by (intro nth_equalityI) (simp_all add: trial_times_def)

lemma demo_clock_monotonic: "clock_monotonic demo_env"
proof -
  have "100 * int (i * i) \<le> 100 * int (j * j)" if "i \<le> j" for i j :: nat
  proof -
    have "i * i \<le> j * j" by (simp add: mult_le_mono that)
    then have "int (i * i) \<le> int (j * j)" by (simp only: of_nat_le_iff)
    then show ?thesis by linarith
  qed
  then show ?thesis by (simp only: clock_monotonic_def demo_env_simps) blast
qed

lemma clock_back_env_simps:
  "pin_level clock_back_env k = (if k mod 4 < 2 then 1 else 0)"
  "clock_ns clock_back_env k = (if k = 0 then 500 else 100)"
  by (simp_all add: clock_back_env_def demo_env_def)

lemma one_trial_config_simps:
  "iterations one_trial_config = 1" "summary one_trial_config = False"
  "get_delays demo_rng one_trial_config = Some [178]"
  by (simp_all add: one_trial_config_def defaults_def get_delays_def demo_rng_def)

lemma measure_loop_for_spec_trials:
  "i \<le> n \<Longrightarrow> length delays = n \<Longrightarrow> length tms = n \<Longrightarrow>
   measure_loop_for detect e delays n i tms w =
     (case spec_trials detect e (drop i delays) w of
        None \<Rightarrow> None
      | Some (samples, w') \<Rightarrow> Some (take i tms @ samples, w'))"
proof (induction "n - i" arbitrary: i tms w)
  case 0
  then show ?case by (simp add: measure_loop_for_done)
next
  case (Suc m)
  then have lt: "i < n" by simp
  have dr: "drop i delays = delays ! i # drop (Suc i) delays"
    using lt Suc.prems(2) by (simp add: Cons_nth_drop_Suc)
  have m: "m = n - Suc i" using Suc.hyps(2) by simp
  have tk: "take (Suc i) (tms[i := v]) = take i tms @ [v]" for v
    using lt Suc.prems(3) by (simp add: take_Suc_conv_app_nth)
  have ih: "measure_loop_for detect e delays n (Suc i) (tms[i := v]) w7 =
     (case spec_trials detect e (drop (Suc i) delays) w7 of
        None \<Rightarrow> None
      | Some (samples, w') \<Rightarrow> Some ((take i tms @ [v]) @ samples, w'))" for v w7
    using Suc.hyps(1) [OF m, of "tms[i := v]" w7] lt Suc.prems(2,3) by (simp only: tk length_list_update Suc_leI)
  show ?case
    unfolding measure_loop_for_step [OF lt] dr spec_trials.simps ih
    by (simp split: option.splits)
qed

text \<open>
  C3. The measurement loop runs the trials as the specification's state machine does:
  after the set-up, for every delay of the delay sequence in turn, it sleeps for the
  delay, records the start time stamp, drives the output HIGH, calls the detection with
  \<open>True\<close>, stores the clock reading taken then minus the start as the sample of the trial,
  drives the output LOW and calls the detection with \<open>False\<close>; the run returns, hangs or
  ends as that sequence of steps does. With a detection function that only polls, the
  history after the set-up is, trial after trial: the sleep, the start time stamp, the
  output driven HIGH, the polls of the wait for the asserted state, the second time
  stamp, the output driven LOW, the polls of the wait for the deasserted state; the
  sample of trial \<open>i\<close> is the second time stamp of the trial minus the first, and the wait
  for the deasserted state, which lies after both, is not timed.
\<close>

theorem measure_loop_step_order:
  "measure_loop r e c detect w =
     (case get_delays r c of
        None \<Rightarrow> Some (Inl Terminate, loop_start c w)
      | Some delays \<Rightarrow>
          (case spec_trials detect e delays (loop_start c w) of
             None \<Rightarrow> None
           | Some (samples, w') \<Rightarrow> Some (Inr samples, w')))
   \<and> (polls_only detect \<and> measure_loop r e c detect w = Some (Inr samples, w') \<longrightarrow>
        (\<exists>delays segs. get_delays r c = Some delays
           \<and> length segs = length delays
           \<and> list_all (\<lambda>(a, b). list_all is_poll a \<and> list_all is_poll b) segs
           \<and> trace w' = trace (loop_start c w) @ trial_trace e (n_clock w) delays segs
           \<and> samples = trial_times e (n_clock w) (length delays)))"
proof (intro conjI impI)
  show "measure_loop r e c detect w =
     (case get_delays r c of
        None \<Rightarrow> Some (Inl Terminate, loop_start c w)
      | Some delays \<Rightarrow>
          (case spec_trials detect e delays (loop_start c w) of
             None \<Rightarrow> None
           | Some (samples, w') \<Rightarrow> Some (Inr samples, w')))"
  proof (cases "get_delays r c")
    case None
    then show ?thesis by (simp add: measure_loop_def loop_start_def)
  next
    case (Some delays)
    then have len: "length delays = nat (iterations c)"
      by (auto simp: get_delays_def Let_def split: if_splits)
    have "measure_loop_for detect e delays (nat (iterations c)) 0
            (replicate (nat (iterations c)) 0) (loop_start c w)
          = (case spec_trials detect e delays (loop_start c w) of
               None \<Rightarrow> None
             | Some (samples, w') \<Rightarrow> Some (samples, w'))"
      using measure_loop_for_spec_trials [of 0 "nat (iterations c)" delays
          "replicate (nat (iterations c)) 0" detect e "loop_start c w"] len
      by (simp split: option.splits)
    with Some show ?thesis
      by (simp add: measure_loop_def loop_start_def Let_def split: option.splits)
  qed
next
  assume a: "polls_only detect \<and> measure_loop r e c detect w = Some (Inr samples, w')"
  then have po: "polls_only detect" and run: "measure_loop r e c detect w = Some (Inr samples, w')"
    by simp_all
  from measure_loop_shape(1) [OF po run] obtain delays segs where
    s: "get_delays r c = Some delays" "length delays = nat (iterations c)"
       "length segs = nat (iterations c)"
       "list_all (\<lambda>(a, b). list_all is_poll a \<and> list_all is_poll b) segs"
       "trace w' = trace (loop_start c w) @ trial_trace e (n_clock w) delays segs"
    by blast
  have "samples = trial_times e (n_clock w) (nat (iterations c))"
    using measure_loop_shape(4,5) [OF po run] by (rule trial_times_eqI)
  with s show "\<exists>delays segs. get_delays r c = Some delays
           \<and> length segs = length delays
           \<and> list_all (\<lambda>(a, b). list_all is_poll a \<and> list_all is_poll b) segs
           \<and> trace w' = trace (loop_start c w) @ trial_trace e (n_clock w) delays segs
           \<and> samples = trial_times e (n_clock w) (length delays)"
    by (intro exI [of _ delays] exI [of _ segs]) simp
qed

text \<open>Two trials on the pin backend: delays 178 and 115, samples 100 and 500.\<close>

theorem measure_loop_step_order_witness:
  "measure_loop demo_rng demo_env demo_config (measure_pin_detect demo_env) world0
     = Some (Inr [100, 500], demo_final)
   \<and> spec_trials (measure_pin_detect demo_env) demo_env [178, 115] (loop_start demo_config world0)
     = Some ([100, 500], demo_final)
   \<and> (\<exists>segs. length segs = 2
         \<and> list_all (\<lambda>(a, b). list_all is_poll a \<and> list_all is_poll b) segs
         \<and> trace demo_final
             = trace (loop_start demo_config world0) @ trial_trace demo_env 0 [178, 115] segs)
   \<and> [100, 500] = trial_times demo_env 0 2"
proof -
  note th = measure_loop_step_order [of demo_rng demo_env demo_config "measure_pin_detect demo_env"
      world0 "[100, 500]" demo_final]
  from th have "(case spec_trials (measure_pin_detect demo_env) demo_env [178, 115]
                    (loop_start demo_config world0) of
                   None \<Rightarrow> None
                 | Some (samples, w') \<Rightarrow> Some (Inr samples, w'))
                = Some (Inr [100, 500] :: stop + int list, demo_final)"
    by (simp add: get_delays_demo demo_run)
  then have sp: "spec_trials (measure_pin_detect demo_env) demo_env [178, 115]
      (loop_start demo_config world0) = Some ([100, 500], demo_final)"
    by (auto split: option.splits)
  from th polls_only_pin demo_run obtain delays segs where
    s: "get_delays demo_rng demo_config = Some delays" "length segs = length delays"
       "list_all (\<lambda>(a, b). list_all is_poll a \<and> list_all is_poll b) segs"
       "trace demo_final
          = trace (loop_start demo_config world0) @ trial_trace demo_env (n_clock world0) delays segs"
       "[100, 500] = trial_times demo_env (n_clock world0) (length delays)"
    by blast
  from s(1) have d: "delays = [178, 115]" by (simp add: get_delays_demo)
  have k: "n_clock world0 = 0" by (simp add: world0_def)
  from s(2) d have l: "length segs = 2" by simp
  from s(5) d k have t: "[100, 500] = trial_times demo_env 0 2" by (simp add: numeral_2_eq_2)
  from s(3,4) l d k have "\<exists>segs. length segs = 2
         \<and> list_all (\<lambda>(a, b). list_all is_poll a \<and> list_all is_poll b) segs
         \<and> trace demo_final
             = trace (loop_start demo_config world0) @ trial_trace demo_env 0 [178, 115] segs"
    by (intro exI [of _ segs]) simp
  with t demo_run sp show ?thesis by blast
qed

text \<open>
  C6. A run of the measurement loop that returns, with a detection function that only
  polls, returns one sample per configured iteration, in trial order: sample \<open>i\<close> is the
  second clock reading of trial \<open>i\<close> minus the first. A sample is non-negative exactly
  when the clock did not go back between the two readings of its trial; so under a clock
  that never goes back every sample is non-negative. The program reads
  \<^verbatim>\<open>std::chrono::high_resolution_clock\<close>, which need not be steady, and nothing in the loop
  keeps a sample from being negative.
\<close>

theorem measure_loop_samples:
  assumes "polls_only detect"
    and "measure_loop r e c detect w = Some (Inr samples, w')"
  shows "int (length samples) = iterations c
         \<and> samples = trial_times e (n_clock w) (length samples)
         \<and> (\<forall>i < length samples.
               0 \<le> samples ! i \<longleftrightarrow>
                 clock_ns e (n_clock w + 2 * i) \<le> clock_ns e (n_clock w + 2 * i + 1))
         \<and> (clock_monotonic e \<longrightarrow> (\<forall>t \<in> set samples. 0 \<le> t))"
proof -
  note sh = measure_loop_shape [OF assms]
  have len: "length samples = nat (iterations c)" by (rule sh(4))
  have eq: "samples = trial_times e (n_clock w) (nat (iterations c))"
    using sh(4,5) by (rule trial_times_eqI)
  have nth: "samples ! i = clock_ns e (n_clock w + 2 * i + 1) - clock_ns e (n_clock w + 2 * i)"
    if "i < length samples" for i
    using sh(5) len that by simp
  have sign: "\<forall>i < length samples.
               0 \<le> samples ! i \<longleftrightarrow>
                 clock_ns e (n_clock w + 2 * i) \<le> clock_ns e (n_clock w + 2 * i + 1)"
    using nth by auto
  have mono: "\<forall>t \<in> set samples. 0 \<le> t" if cm: "clock_monotonic e"
  proof
    fix t assume "t \<in> set samples"
    then obtain i where i: "i < length samples" "t = samples ! i"
      by (auto simp: in_set_conv_nth)
    have "clock_ns e (n_clock w + 2 * i) \<le> clock_ns e (n_clock w + 2 * i + 1)"
      using cm by (simp add: clock_monotonic_def)
    with sign i show "0 \<le> t" by simp
  qed
  from len eq sh(3) sign mono show ?thesis by simp
qed

theorem measure_loop_samples_witness:
  "measure_loop demo_rng demo_env demo_config (measure_pin_detect demo_env) world0
     = Some (Inr [100, 500], demo_final)
   \<and> int (length [100 :: int, 500]) = iterations demo_config
   \<and> list_all (\<lambda>t. 0 \<le> t) [100 :: int, 500]"
proof -
  from measure_loop_samples [OF polls_only_pin demo_run] demo_clock_monotonic
  have "int (length [100 :: int, 500]) = iterations demo_config"
    and "\<forall>t \<in> set [100 :: int, 500]. 0 \<le> t"
    by blast+
  with demo_run show ?thesis by (simp add: list_all_iff)
qed

text \<open>The clock reads 500 at the start of the trial and 100 after the wait for the
  asserted state: the run of one trial on the pin backend returns the sample -400.\<close>

theorem measure_loop_samples_counterexample:
  "measure_pin demo_rng clock_back_env one_trial_config world0
     = Some (Inr [- 400], clock_back_final)
   \<and> int (length [- 400 :: int]) = iterations one_trial_config
   \<and> \<not> 0 \<le> (- 400 :: int)"
proof -
  have r: "replicate (Suc 0) (0 :: int) = [0]" by simp
  have "measure_pin demo_rng clock_back_env one_trial_config world0
     = Some (Inr [- 400], clock_back_final)"
    by (simp add: measure_pin_def measure_loop_def one_trial_config_simps init_pins_def r
        Let_def digitalWrite_def emit_def world0_def measure_loop_for_step
        measure_loop_for_done trial_begin_def trial_mid_def measure_pin_detect_unfold
        after_pin_read_def clock_back_env_simps clock_back_final_def g_pin_input_def
        g_pin_output_def LOW_def HIGH_def INPUT_def OUTPUT_def PUD_UP_def)
  then show ?thesis by (simp add: one_trial_config_simps)
qed

section \<open>Validation of the configuration\<close>


lemma only_output_refl [simp]: "only_output w w"
  by (auto simp: only_output_def intro: exI [of _ "[]"])

lemma only_output_trans: "only_output w w1 \<Longrightarrow> only_output w1 w2 \<Longrightarrow> only_output w w2"
  unfolding only_output_def
proof -
  assume "\<exists>tr. w1 = w\<lparr>trace := trace w @ tr\<rparr> \<and> list_all is_output tr"
    and "\<exists>tr. w2 = w1\<lparr>trace := trace w1 @ tr\<rparr> \<and> list_all is_output tr"
  then obtain a b where "w1 = w\<lparr>trace := trace w @ a\<rparr>" "list_all is_output a"
    "w2 = w1\<lparr>trace := trace w1 @ b\<rparr>" "list_all is_output b"
    by blast
  then have "w2 = w\<lparr>trace := trace w @ (a @ b)\<rparr> \<and> list_all is_output (a @ b)" by simp
  then show "\<exists>tr. w2 = w\<lparr>trace := trace w @ tr\<rparr> \<and> list_all is_output tr" by blast
qed

lemma only_output_Cerr [simp]: "only_output w (emit (Cerr s) w)"
  by (auto simp: only_output_def emit_def is_output_def intro: exI [of _ "[Cerr s]"])

lemma only_output_Cout [simp]: "only_output w (emit (Cout s) w)"
  by (auto simp: only_output_def emit_def is_output_def intro: exI [of _ "[Cout s]"])

lemma help'_only_output: "only_output w (snd (help' err w))"
  by (simp add: help'_def)

lemma get_num_only_output: "only_output w (snd (get_num e name optarg w))"
  by (auto simp: get_num_def help'_def split: stoi_result.splits
        intro: only_output_trans [OF only_output_Cerr only_output_Cerr])

lemma get_positive_only_output: "only_output w (snd (get_positive e name optarg z w))"
proof (cases "get_num e name optarg w")
  case (Pair res w1)
  with get_num_only_output [of w e name optarg] have o: "only_output w w1" by simp
  show ?thesis
  proof (cases res)
    case (Inl s)
    with Pair o show ?thesis by (simp add: get_positive_def)
  next
    case (Inr v)
    have "only_output w (emit (Cerr help_msg) (emit (Cerr m) w1))" for m
      by (rule only_output_trans [OF o only_output_trans [OF only_output_Cerr only_output_Cerr]])
    with Pair o Inr show ?thesis by (simp add: get_positive_def help'_def)
  qed
qed

text \<open>One round of the option loop that reads a number.\<close>

lemma number_option_only_output:
  assumes "(case f of (Inl s, w1) \<Rightarrow> (Inl s, w1) | (Inr v, w1) \<Rightarrow> g v w1) = (res, w')"
    and "only_output w (snd f)"
    and "\<And>v w1. only_output w w1 \<Longrightarrow> g v w1 = (res, w') \<Longrightarrow> only_output w w'"
  shows "only_output w w'"
proof (cases f)
  case (Pair x w1)
  show ?thesis
  proof (cases x)
    case (Inl s)
    with Pair assms(1,2) show ?thesis by auto
  next
    case (Inr v)
    with Pair assms(1) have "g v w1 = (res, w')" by simp
    moreover from Pair assms(2) have "only_output w w1" by simp
    ultimately show ?thesis by (rule assms(3) [rotated])
  qed
qed

lemma parse_args_loop_only_output:
  "parse_args_loop e args c w = (res, w') \<Longrightarrow> only_output w0 w \<Longrightarrow> only_output w0 w'"
proof (induction args arbitrary: c w)
  case Nil
  then show ?case by simp
next
  case (Cons a rest)
  obtain oc optarg where a: "a = (oc, optarg)" by (cases a)
  note step = Cons.prems(1) [unfolded a parse_args_loop.simps]
  note ih = Cons.IH [rotated]
  have pos: "only_output w0 (snd (get_positive e name optarg z w))" for name z
    by (rule only_output_trans [OF Cons.prems(2) get_positive_only_output])
  have num: "only_output w0 (snd (get_num e name optarg w))" for name
    by (rule only_output_trans [OF Cons.prems(2) get_num_only_output])
  have hlp: "only_output w0 (snd (help' err w))" for err
    by (rule only_output_trans [OF Cons.prems(2) help'_only_output])
  consider "oc = CHR ''i''" | "oc = CHR ''d''" | "oc = CHR ''D''" | "oc = CHR ''p''"
    | "oc = CHR ''u''" | "oc = CHR ''k''" | "oc = CHR ''e''" | "oc = CHR ''s''" | "oc = CHR ''h''"
    | "oc \<notin> {CHR ''i'', CHR ''d'', CHR ''D'', CHR ''p'', CHR ''u'', CHR ''k'', CHR ''e'',
              CHR ''s'', CHR ''h''}"
    by blast
  then show ?case
  proof cases
    case 1
    with step show ?thesis
      by simp (erule number_option_only_output [OF _ pos], rule ih)
  next
    case 2
    with step show ?thesis
      by simp (erule number_option_only_output [OF _ pos], rule ih)
  next
    case 3
    with step show ?thesis
      by simp (erule number_option_only_output [OF _ pos], rule ih)
  next
    case 4
    with step Cons.prems(2) show ?thesis by simp (erule ih)
  next
    case 5
    with step show ?thesis
      by simp (erule number_option_only_output [OF _ num], rule ih)
  next
    case 6
    with step show ?thesis
      by simp (erule number_option_only_output [OF _ num], rule ih)
  next
    case 7
    with step Cons.prems(2) show ?thesis by simp (erule ih)
  next
    case 8
    with step Cons.prems(2) show ?thesis by simp (erule ih)
  next
    case 9
    with step hlp [of False] show ?thesis by (auto split: prod.splits)
  next
    case 10
    with step hlp [of True] show ?thesis by (auto split: prod.splits)
  qed
qed


lemma only_output_trace:
  "only_output w w' \<Longrightarrow> list_all is_output (trace w) \<Longrightarrow> list_all is_output (trace w')"
  by (auto simp: only_output_def)

lemma only_output_counters:
  "only_output w w' \<Longrightarrow>
     n_open w' = n_open w \<and> n_pin w' = n_pin w \<and> n_clock w' = n_clock w
     \<and> n_read w' = n_read w \<and> n_ioctl w' = n_ioctl w"
  by (auto simp: only_output_def)

text \<open>
  C7. When the option loop ends with a configuration whose \<open>delay_max\<close> is below its
  \<open>delay_min\<close>, \<^verbatim>\<open>parse_args\<close> writes the error line and the help text to the error stream
  and the process exits with status 1. The whole run consists of writes to the output
  streams: no pin, clock or device was touched, and nothing was measured.
\<close>

theorem parse_args_rejects_delay_max_below_min:
  assumes "parse_args_loop e args defaults world0 = (Inr config, w1)"
    and "delay_max config < delay_min config"
  shows "parse_args e args defaults world0
           = (Inl (Exit 1),
              w1\<lparr>trace := trace w1 @ [Cerr (''delaymin must be smaller or equal to delaymin'' @ endl),
                                        Cerr help_msg]\<rparr>)
         \<and> main r e args
           = Some (Exit 1,
              w1\<lparr>trace := trace w1 @ [Cerr (''delaymin must be smaller or equal to delaymin'' @ endl),
                                        Cerr help_msg]\<rparr>)
         \<and> list_all is_output (trace w1)
         \<and> n_pin w1 = 0 \<and> n_clock w1 = 0 \<and> n_read w1 = 0 \<and> n_open w1 = 0 \<and> n_ioctl w1 = 0"
proof -
  let ?w = "w1\<lparr>trace := trace w1 @ [Cerr (''delaymin must be smaller or equal to delaymin'' @ endl),
                                        Cerr help_msg]\<rparr>"
  have p: "parse_args e args defaults world0 = (Inl (Exit 1), ?w)"
    using assms by (simp add: parse_args_def help'_def emit_def)
  then have m: "main r e args = Some (Exit 1, ?w)" by (simp add: main_def)
  have oo: "only_output world0 w1" using assms(1) only_output_refl by (rule parse_args_loop_only_output)
  have "list_all is_output (trace w1)"
    using only_output_trace [OF oo] by (simp add: world0_def)
  moreover have "n_pin w1 = 0 \<and> n_clock w1 = 0 \<and> n_read w1 = 0 \<and> n_open w1 = 0 \<and> n_ioctl w1 = 0"
    using only_output_counters [OF oo] by (simp add: world0_def)
  ultimately show ?thesis using p m by simp
qed

lemma demo_stoi [simp]:
  "stoi demo_env ''50'' = Parsed 50" "stoi demo_env ''10'' = Parsed 10"
  "stoi demo_env ''4'' = Parsed 4"
  by (simp_all add: demo_env_def)

text \<open>The options \<^verbatim>\<open>-d 50 -D 10 -p\<close>.\<close>

theorem parse_args_rejects_delay_max_below_min_witness:
  "main demo_rng demo_env [(CHR ''d'', ''50''), (CHR ''D'', ''10''), (CHR ''p'', '''')]
     = Some (Exit 1,
         world0\<lparr>trace := [Cerr (''delaymin must be smaller or equal to delaymin'' @ endl),
                           Cerr help_msg]\<rparr>)"
proof -
  have l: "parse_args_loop demo_env [(CHR ''d'', ''50''), (CHR ''D'', ''10''), (CHR ''p'', '''')]
             defaults world0
           = (Inr (defaults\<lparr>delay_min := 50, delay_max := 10, pin := True\<rparr>), world0)"
    by (simp add: get_positive_def get_num_def)
  have d: "delay_max (defaults\<lparr>delay_min := 50, delay_max := 10, pin := True\<rparr>)
           < delay_min (defaults\<lparr>delay_min := 50, delay_max := 10, pin := True\<rparr>)"
    by simp
  from parse_args_rejects_delay_max_below_min [OF l d, of demo_rng] show ?thesis
    by (simp add: world0_def)
qed

text \<open>
  C8. When the option loop ends with a configuration that names a usb event device and no
  key code, \<^verbatim>\<open>parse_args\<close> ends the process with status 1, whatever else the configuration
  holds. The whole run consists of writes to the output streams, the last of them the
  help text on the error stream: no device was opened.
\<close>

theorem parse_args_rejects_usb_without_key:
  assumes "parse_args_loop e args defaults world0 = (Inr config, w1)"
    and "usb config \<noteq> None" and "key config = None"
  shows "\<exists>w'. parse_args e args defaults world0 = (Inl (Exit 1), w')
           \<and> main r e args = Some (Exit 1, w')
           \<and> list_all is_output (trace w')
           \<and> last (trace w') = Cerr help_msg
           \<and> n_open w' = 0 \<and> n_read w' = 0 \<and> n_ioctl w' = 0 \<and> n_pin w' = 0 \<and> n_clock w' = 0"
proof -
  have oo: "only_output world0 w1" using assms(1) only_output_refl by (rule parse_args_loop_only_output)
  consider (range) "delay_max config < delay_min config"
    | (several) "\<not> delay_max config < delay_min config" "pin config \<or> events config"
    | (single) "\<not> delay_max config < delay_min config" "\<not> pin config" "\<not> events config"
    by blast
  then have "\<exists>msg. parse_args e args defaults world0
      = (Inl (Exit 1), emit (Cerr help_msg) (emit (Cerr msg) w1))"
  proof cases
    case range
    then have "parse_args e args defaults world0
      = (Inl (Exit 1), emit (Cerr help_msg)
           (emit (Cerr (''delaymin must be smaller or equal to delaymin'' @ endl)) w1))"
      unfolding parse_args_def assms(1) by (simp add: help'_def)
    then show ?thesis by blast
  next
    case several
    then have "parse_args e args defaults world0
      = (Inl (Exit 1), emit (Cerr help_msg)
           (emit (Cerr (''Passed conflicting mutually exclusive commands: pin, usb, events'' @ endl)) w1))"
      unfolding parse_args_def assms(1) using assms(2) by (auto simp: help'_def Let_def)
    then show ?thesis by blast
  next
    case single
    then have "parse_args e args defaults world0
      = (Inl (Exit 1), emit (Cerr help_msg)
           (emit (Cerr (''Must pass --key when using usb measurement'' @ endl)) w1))"
      unfolding parse_args_def assms(1) using assms(2,3) by (simp add: help'_def Let_def)
    then show ?thesis by blast
  qed
  then obtain msg where p: "parse_args e args defaults world0
      = (Inl (Exit 1), emit (Cerr help_msg) (emit (Cerr msg) w1))"
    by blast
  let ?w = "emit (Cerr help_msg) (emit (Cerr msg) w1)"
  have oo': "only_output world0 ?w"
    by (rule only_output_trans [OF oo only_output_trans [OF only_output_Cerr only_output_Cerr]])
  have m: "main r e args = Some (Exit 1, ?w)" using p by (simp add: main_def)
  have "list_all is_output (trace ?w)"
    using only_output_trace [OF oo'] by (simp add: world0_def)
  moreover have "n_open ?w = 0 \<and> n_read ?w = 0 \<and> n_ioctl ?w = 0 \<and> n_pin ?w = 0 \<and> n_clock ?w = 0"
    using only_output_counters [OF oo'] by (simp add: world0_def)
  moreover have "last (trace ?w) = Cerr help_msg" by simp
  ultimately show ?thesis using p m by blast
qed

text \<open>The options \<^verbatim>\<open>-u 4\<close>.\<close>

theorem parse_args_rejects_usb_without_key_witness:
  "main demo_rng demo_env [(CHR ''u'', ''4'')]
     = Some (Exit 1,
         world0\<lparr>trace := [Cerr (''Must pass --key when using usb measurement'' @ endl),
                           Cerr help_msg]\<rparr>)"
proof -
  have l: "parse_args_loop demo_env [(CHR ''u'', ''4'')] defaults world0
           = (Inr (defaults\<lparr>usb := Some 4\<rparr>), world0)"
    by (simp add: get_num_def)
  have u: "usb (defaults\<lparr>usb := Some 4\<rparr>) \<noteq> None" by simp
  have k: "key (defaults\<lparr>usb := Some 4\<rparr>) = None" by (simp add: defaults_def)
  from parse_args_rejects_usb_without_key [OF l u k, of demo_rng]
  obtain w' where w': "parse_args demo_env [(CHR ''u'', ''4'')] defaults world0 = (Inl (Exit 1), w')"
    "main demo_rng demo_env [(CHR ''u'', ''4'')] = Some (Exit 1, w')"
    by blast
  have "parse_args demo_env [(CHR ''u'', ''4'')] defaults world0
          = (Inl (Exit 1), world0\<lparr>trace := [Cerr (''Must pass --key when using usb measurement'' @ endl),
                           Cerr help_msg]\<rparr>)"
    unfolding parse_args_def l by (simp add: help'_def emit_def defaults_def world0_def)
  with w' show ?thesis by simp
qed

section \<open>The event device handle\<close>


lemma fd_track_append:
  "fd_track (xs @ ys) held = (case fd_track xs held of None \<Rightarrow> None | Some h \<Rightarrow> fd_track ys h)"
  by (induction xs held rule: fd_track.induct) simp_all

lemma fd_track_no_fd:
  "list_all (\<lambda>a. \<not> is_fd_action a) tr \<Longrightarrow> fd_track tr held = Some held"
  by (induction tr held rule: fd_track.induct) (simp_all add: is_fd_action_def)

lemma is_poll_not_fd: "is_poll a \<Longrightarrow> \<not> is_fd_action a"
  by (cases a) (simp_all add: is_poll_def is_fd_action_def)

lemma polls_no_fd: "list_all is_poll tr \<Longrightarrow> list_all (\<lambda>a. \<not> is_fd_action a) tr"
  by (induction tr) (simp_all add: is_poll_not_fd)

lemma not_fd_action [simp]:
  "\<not> is_fd_action (SleepFor d)" "\<not> is_fd_action (ClockNow t)"
  "\<not> is_fd_action (DigitalWrite p v)" "\<not> is_fd_action (Cout s)" "\<not> is_fd_action (Cerr s)"
  "\<not> is_fd_action WiringPiSetup" "\<not> is_fd_action (PinMode p v)"
  "\<not> is_fd_action (PullUpDnControl p v)"
  by (simp_all add: is_fd_action_def)

lemma trial_trace_no_fd:
  "list_all (\<lambda>(a, b). list_all is_poll a \<and> list_all is_poll b) segs \<Longrightarrow>
   list_all (\<lambda>a. \<not> is_fd_action a) (trial_trace e k ds segs)"
  by (induction e k ds segs rule: trial_trace.induct) (simp_all add: polls_no_fd)

lemma loop_start_no_fd:
  "\<exists>pre. trace (loop_start c w) = trace w @ pre \<and> list_all (\<lambda>a. \<not> is_fd_action a) pre"
  by (simp add: loop_start_def init_pins_def print_config_def digitalWrite_def Let_def)

text \<open>The constructor: a failed \<^verbatim>\<open>open\<close> is the only call; a successful one is the only
  call and the handle holds what it returned.\<close>

lemma Event_ctor_cases:
  obtains (failed) path fd where "fd < 0"
      "Event_ctor e event_id w
         = (Inl OpenException,
            w\<lparr>n_open := Suc (n_open w), trace := trace w @ [SysOpen path (or O_RDONLY O_NONBLOCK) fd]\<rparr>)"
  | (opened) path fd where "0 \<le> fd"
      "Event_ctor e event_id w
         = (Inr \<lparr>Event_fd = fd, Event_id = event_id\<rparr>,
            w\<lparr>n_open := Suc (n_open w), trace := trace w @ [SysOpen path (or O_RDONLY O_NONBLOCK) fd]\<rparr>)"
proof (cases "sys_open e (n_open w) (''/dev/input/event'' @ show_int event_id) < 0")
  case True
  then show ?thesis
    by (intro failed [of "sys_open e (n_open w) (''/dev/input/event'' @ show_int event_id)"
          "''/dev/input/event'' @ show_int event_id"])
       (simp_all add: Event_ctor_def Let_def emit_def)
next
  case False
  then show ?thesis
    by (intro opened [of "sys_open e (n_open w) (''/dev/input/event'' @ show_int event_id)"
          "''/dev/input/event'' @ show_int event_id"])
       (simp_all add: Event_ctor_def Let_def emit_def)
qed

lemma print_event_paths_body_neutral:
  "\<exists>seg. trace (print_event_paths_body e event_id w) = trace w @ seg
         \<and> (\<forall>held. fd_track seg held = Some held)"
proof (cases rule: Event_ctor_cases [of e event_id w])
  case (failed path fd)
  then show ?thesis by (simp add: print_event_paths_body_def)
next
  case (opened path fd)
  then show ?thesis
    by (simp add: print_event_paths_body_def Event_name_def Event_dtor_def Let_def emit_def)
qed

lemma print_event_paths_for_neutral:
  "\<exists>tr. trace (print_event_paths_for e event_id w) = trace w @ tr
        \<and> (\<forall>held. fd_track tr held = Some held)"
proof (induction e event_id w rule: print_event_paths_for.induct)
  case (1 e event_id w)
  show ?case
  proof (cases "event_id < 256")
    case False
    then show ?thesis by (subst print_event_paths_for.simps) simp
  next
    case True
    let ?w1 = "print_event_paths_body e event_id w"
    from print_event_paths_body_neutral [of e event_id w] obtain seg where
      seg: "trace ?w1 = trace w @ seg" "\<forall>held. fd_track seg held = Some held"
      by blast
    from "1.IH" [OF True] obtain tr where
      tr: "trace (print_event_paths_for e (event_id + 1) ?w1) = trace ?w1 @ tr"
        "\<forall>held. fd_track tr held = Some held"
      by blast
    have "print_event_paths_for e event_id w = print_event_paths_for e (event_id + 1) ?w1"
      using True by (subst print_event_paths_for.simps) simp
    with seg tr have "trace (print_event_paths_for e event_id w) = trace w @ (seg @ tr)
        \<and> (\<forall>held. fd_track (seg @ tr) held = Some held)"
      by (simp add: fd_track_append)
    then show ?thesis by blast
  qed
qed

lemma measure_usb_neutral:
  assumes "0 \<le> iterations c" and "measure_usb r e c event_id w = Some (res, w')"
  shows "\<exists>tr. trace w' = trace w @ tr \<and> fd_track tr [] = Some []"
proof (cases rule: Event_ctor_cases [of e event_id w])
  case (failed path fd)
  with assms(2) have "trace w' = trace w @ [SysOpen path (or O_RDONLY O_NONBLOCK) fd,
      Cerr (''Could not open fd for '' @ show_int event_id @ endl)]"
    by (auto simp: measure_usb_def emit_def)
  moreover have "fd_track [SysOpen path (or O_RDONLY O_NONBLOCK) fd,
      Cerr (''Could not open fd for '' @ show_int event_id @ endl)] [] = Some []"
    using failed(1) by simp
  ultimately show ?thesis by blast
next
  case (opened path fd)
  let ?w1 = "w\<lparr>n_open := Suc (n_open w), trace := trace w @ [SysOpen path (or O_RDONLY O_NONBLOCK) fd]\<rparr>"
  have nt: "measure_loop r e c (measure_usb_detect e c fd) ?w1 \<noteq> Some (Inl s, w2)" for s w2
    using assms(1) by (auto simp: measure_loop_def get_delays_def Let_def split: option.splits)
  from assms(2) opened(2) obtain tms w2 where
    run: "measure_loop r e c (measure_usb_detect e c fd) ?w1 = Some (Inr tms, w2)"
    and w': "w' = Event_dtor \<lparr>Event_fd = fd, Event_id = event_id\<rparr> w2"
    using nt by (auto simp: measure_usb_def Let_def split: option.splits sum.splits)
  from measure_loop_shape(1) [OF polls_only_usb run] obtain delays segs where
    s: "list_all (\<lambda>(a, b). list_all is_poll a \<and> list_all is_poll b) segs"
       "trace w2 = trace (loop_start c ?w1) @ trial_trace e (n_clock ?w1) delays segs"
    by blast
  from loop_start_no_fd [of c ?w1] obtain pre where
    pre: "trace (loop_start c ?w1) = trace ?w1 @ pre" "list_all (\<lambda>a. \<not> is_fd_action a) pre"
    by blast
  let ?mid = "pre @ trial_trace e (n_clock ?w1) delays segs"
  have mid: "fd_track ?mid held = Some held" for held
    using pre(2) trial_trace_no_fd [OF s(1)] by (intro fd_track_no_fd) simp
  have "trace w' = trace w @ ([SysOpen path (or O_RDONLY O_NONBLOCK) fd] @ ?mid @ [SysClose fd])"
    using w' s(2) pre(1) opened(1) by (simp add: Event_dtor_def emit_def)
  moreover have "fd_track ([SysOpen path (or O_RDONLY O_NONBLOCK) fd] @ ?mid @ [SysClose fd]) [] = Some []"
    using opened(1) mid [of "[fd]"] by (simp add: fd_track_append del: append_assoc)
  ultimately show ?thesis by blast
qed


lemma show_int_3: "show_int 3 = ''3''"
  by (simp add: show_int_def show_nat.simps char_of_def bit_simps)

lemma demo_usb_simps:
  "ev_read demo_env k = (if k = 0 then (- 1, demo_event 1 30 1)
                     else if k = 1 then (24, demo_event 0 0 0)
                     else if k = 2 then (24, demo_event 1 31 1)
                     else if k = 3 then (24, demo_event 1 30 2)
                     else if k = 4 then (24, demo_event 1 30 1)
                     else (0, demo_event 1 30 0))"
  "sys_open demo_env k path = (if k = 3 then 5 else - 1)"
  by (simp_all add: demo_env_def)

lemma demo_usb_config_simps:
  "iterations demo_usb_config = 1" "summary demo_usb_config = False"
  "key demo_usb_config = Some 30"
  "get_delays demo_rng demo_usb_config = Some [178]"
  by (simp_all add: demo_usb_config_def demo_config_def defaults_def get_delays_def demo_rng_def)

lemma demo_usb_detect_press:
  "n_read w = 0 \<Longrightarrow>
   measure_usb_detect demo_env demo_usb_config 5 True w
     = Some (w\<lparr>n_read := 5,
               trace := trace w @ [SysRead 5 (- 1) (demo_event 1 30 1), SysRead 5 24 (demo_event 0 0 0),
                 SysRead 5 24 (demo_event 1 31 1), SysRead 5 24 (demo_event 1 30 2),
                 SysRead 5 24 (demo_event 1 30 1)]\<rparr>)"
  by (simp add: measure_usb_detect_unfold usb_hit_def demo_usb_simps is_expected_key_event_def
        demo_event_def demo_usb_config_simps EV_KEY_def after_usb_read_def)

lemma demo_usb_detect_release:
  "n_read w = 5 \<Longrightarrow>
   measure_usb_detect demo_env demo_usb_config 5 False w
     = Some (w\<lparr>n_read := 6, trace := trace w @ [SysRead 5 0 (demo_event 1 30 0)]\<rparr>)"
  by (simp add: measure_usb_detect_unfold usb_hit_def demo_usb_simps is_expected_key_event_def
        demo_event_def demo_usb_config_simps EV_KEY_def after_usb_read_def)

lemma demo_usb_run:
  "measure_usb demo_rng demo_env demo_usb_config 3 (world0\<lparr>n_open := 3\<rparr>)
     = Some (Inr [100], demo_usb_final)"
  by (simp add: measure_usb_def Event_ctor_def Event_dtor_def show_int_3 demo_usb_simps
        measure_loop_def demo_usb_config_simps init_pins_def
        Let_def digitalWrite_def emit_def world0_def measure_loop_for_step
        measure_loop_for_done trial_begin_def trial_mid_def demo_usb_detect_press
        demo_usb_detect_release demo_env_simps demo_usb_final_def g_pin_input_def
        g_pin_output_def LOW_def HIGH_def INPUT_def OUTPUT_def PUD_UP_def O_RDONLY_def
        O_NONBLOCK_def)

text \<open>
  C9. Every descriptor the program opens on an event device is closed once, on every way
  out of the scope of its handle. Replayed from no descriptor held, the calls of the
  device listing leave no descriptor held and never close one that is not held, however
  many of the 256 candidates open; so do the calls of a usb measurement that returns or
  exits (the iteration count being non-negative, as \<^verbatim>\<open>parse_args\<close> leaves it). A successful
  construction holds exactly the descriptor \<^verbatim>\<open>open\<close> returned and the destructor releases
  it; a failed construction (a negative descriptor) holds none.
\<close>

theorem event_descriptor_released_once:
  "fd_track (drop (length (trace w)) (trace (print_event_paths e w))) [] = Some []
   \<and> (0 \<le> iterations c \<and> measure_usb r e c event_id w = Some (res, w')
        \<longrightarrow> fd_track (drop (length (trace w)) (trace w')) [] = Some [])
   \<and> (\<forall>ev w1. Event_ctor e event_id w = (Inr ev, w1)
        \<longrightarrow> fd_track (drop (length (trace w)) (trace w1)) [] = Some [Event_fd ev]
            \<and> (\<forall>w2. fd_track (drop (length (trace w2)) (trace (Event_dtor ev w2))) [Event_fd ev]
                       = Some []))
   \<and> (\<forall>x w1. Event_ctor e event_id w = (Inl x, w1)
        \<longrightarrow> fd_track (drop (length (trace w)) (trace w1)) [] = Some [])"
proof (intro conjI allI impI)
  from print_event_paths_for_neutral [of e 0 w]
  show "fd_track (drop (length (trace w)) (trace (print_event_paths e w))) [] = Some []"
    by (auto simp: print_event_paths_def)
next
  assume "0 \<le> iterations c \<and> measure_usb r e c event_id w = Some (res, w')"
  then have "\<exists>tr. trace w' = trace w @ tr \<and> fd_track tr [] = Some []"
    using measure_usb_neutral by blast
  then show "fd_track (drop (length (trace w)) (trace w')) [] = Some []" by auto
next
  fix ev w1
  assume a: "Event_ctor e event_id w = (Inr ev, w1)"
  then show "fd_track (drop (length (trace w)) (trace w1)) [] = Some [Event_fd ev]"
    by (cases rule: Event_ctor_cases [of e event_id w]) auto
  fix w2
  from a have "0 \<le> Event_fd ev"
    by (cases rule: Event_ctor_cases [of e event_id w]) auto
  then show "fd_track (drop (length (trace w2)) (trace (Event_dtor ev w2))) [Event_fd ev] = Some []"
    by (simp add: Event_dtor_def)
next
  fix x w1
  assume "Event_ctor e event_id w = (Inl x, w1)"
  then show "fd_track (drop (length (trace w)) (trace w1)) [] = Some []"
    by (cases rule: Event_ctor_cases [of e event_id w]) auto
qed

text \<open>One trial on the usb backend: the descriptor 5 is opened first and closed last.\<close>

theorem event_descriptor_released_once_witness:
  "measure_usb demo_rng demo_env demo_usb_config 3 (world0\<lparr>n_open := 3\<rparr>)
     = Some (Inr [100], demo_usb_final)
   \<and> fd_track (trace demo_usb_final) [] = Some []"
proof -
  have i: "0 \<le> iterations demo_usb_config" by (simp add: demo_usb_config_simps)
  from event_descriptor_released_once [of "world0\<lparr>n_open := 3\<rparr>" demo_env demo_usb_config
      demo_rng 3 "Inr [100]" demo_usb_final] i demo_usb_run
  have "fd_track (drop (length (trace (world0\<lparr>n_open := 3\<rparr>))) (trace demo_usb_final)) [] = Some []"
    by blast
  with demo_usb_run show ?thesis by (simp add: world0_def)
qed

end
